theory Spec2Isabelle
  imports Complex_Main
begin

section \<open>autosub/ffmpeg\_utils.py: calling the media tools\<close>

text \<open>
  The module is modelled under the semantics of Python 3 on a POSIX system
  (\<open>os.path\<close> is \<open>posixpath\<close>, \<open>os.pathsep\<close> is a colon).
  Text is \<open>string\<close>. A float the module computes with is the real number it denotes;
  a float that \<open>float()\<close> makes of text may also be an infinity or not a number.
  Every exception the module can meet is a value of \<open>exn\<close>, and a function
  that may raise returns \<open>exn + 'a\<close>.
\<close>

datatype exn =
    CalledProcessError
  | OSError
  | FileNotFoundError
  | ValueError
  | UnicodeDecodeError
  | TypeError
  | KeyError
  | IndexError
  | EOFError
  | ZeroDivisionError
  | KeyboardInterrupt

subsection \<open>Strings and paths\<close>

definition rstrip_chr :: "char \<Rightarrow> string \<Rightarrow> string" where
  "rstrip_chr c s = rev (dropWhile (\<lambda>x. x = c) (rev s))"

definition strip_chr :: "char \<Rightarrow> string \<Rightarrow> string" where
  \<comment> \<open>\<open>s.strip(c)\<close> for a one-character argument\<close>
  "strip_chr c s = rstrip_chr c (dropWhile (\<lambda>x. x = c) s)"

fun str_split :: "char \<Rightarrow> string \<Rightarrow> string list" where
  \<comment> \<open>\<open>s.split(c)\<close>: the empty string gives one empty field\<close>
  "str_split c [] = [[]]"
| "str_split c (x # xs) =
     (if x = c then [] # str_split c xs
      else (case str_split c xs of [] \<Rightarrow> [[x]] | r # rs \<Rightarrow> (x # r) # rs))"

definition path_split :: "string \<Rightarrow> string \<times> string" where
  \<comment> \<open>\<open>posixpath.split\<close>: cut after the last slash, then drop the head's
      trailing slashes unless the head is made of slashes only\<close>
  "path_split p =
     (let i = length p - length (takeWhile (\<lambda>c. c \<noteq> CHR ''/'') (rev p));
          head = take i p;
          tail = drop i p
      in (if head \<noteq> [] \<and> head \<noteq> replicate (length head) CHR ''/''
          then rstrip_chr CHR ''/'' head else head, tail))"

definition path_join :: "string \<Rightarrow> string \<Rightarrow> string" where
  \<comment> \<open>\<open>posixpath.join\<close> of two components\<close>
  "path_join a b =
     (if b \<noteq> [] \<and> hd b = CHR ''/'' then b
      else if a = [] \<or> last a = CHR ''/'' then a @ b
      else a @ ''/'' @ b)"

subsection \<open>The operating system as the locator reads it\<close>

record os =
  files :: "string list"       \<comment> \<open>the paths at which \<open>os.path.isfile\<close> holds\<close>
  executable :: "string list"  \<comment> \<open>the paths at which \<open>os.access(p, os.X_OK)\<close> holds\<close>
  environ :: "string \<rightharpoonup> string"

definition isfile :: "string list \<Rightarrow> string \<Rightarrow> bool" where
  "isfile fs p = (p \<in> set fs)"

text \<open>
  The three ways the locator reads the system. Each is written as a step on the state
  that returns the state it was given, so that what the locator does to the system can be
  stated.
\<close>

definition os_path_isfile :: "string \<Rightarrow> 'a os_scheme \<Rightarrow> bool \<times> 'a os_scheme" where
  "os_path_isfile p w = (isfile (files w) p, w)"

definition os_access_X_OK :: "string \<Rightarrow> 'a os_scheme \<Rightarrow> bool \<times> 'a os_scheme" where
  "os_access_X_OK p w = (p \<in> set (executable w), w)"

definition environ_getitem :: "string \<Rightarrow> 'a os_scheme \<Rightarrow> (exn + string) \<times> 'a os_scheme" where
  \<comment> \<open>\<open>os.environ[k]\<close>\<close>
  "environ_getitem k w = (case environ w k of None \<Rightarrow> Inl KeyError | Some v \<Rightarrow> Inr v, w)"

subsection \<open>which\_exe\<close>

definition is_exe :: "string \<Rightarrow> 'a os_scheme \<Rightarrow> bool \<times> 'a os_scheme" where
  \<comment> \<open>\<open>os.path.isfile(file_path) and os.access(file_path, os.X_OK)\<close>\<close>
  "is_exe file_path w =
     (case os_path_isfile file_path w of
        (b, w1) \<Rightarrow> if b then os_access_X_OK file_path w1 else (False, w1))"

fun scan_path :: "string \<Rightarrow> string list \<Rightarrow> 'a os_scheme \<Rightarrow> string option \<times> 'a os_scheme" where
  \<comment> \<open>the \<open>for path in ...\<close> loop, returning at the first hit\<close>
  "scan_path program_name [] w = (None, w)"
| "scan_path program_name (path # rest) w =
     (let path' = strip_chr CHR 0x22 path;
          exe_file = path_join path' program_name
      in case is_exe exe_file w of
           (b, w1) \<Rightarrow> if b then (Some exe_file, w1) else scan_path program_name rest w1)"

definition which_exe :: "string \<Rightarrow> 'a os_scheme \<Rightarrow> (exn + string option) \<times> 'a os_scheme" where
  "which_exe program_name w =
     (let (fpath, _) = path_split program_name
      in if fpath \<noteq> [] then
           (case is_exe program_name w of
              (b, w1) \<Rightarrow> if b then (Inr (Some program_name), w1) else (Inr None, w1))
         else
           (case environ_getitem ''PATH'' w of
              (Inl e, w1) \<Rightarrow> (Inl e, w1)
            | (Inr v, w1) \<Rightarrow>
                (case scan_path program_name (str_split CHR '':'' v) w1 of
                   (r, w2) \<Rightarrow> (Inr r, w2))))"

definition check_cmd :: "string \<Rightarrow> 'a os_scheme \<Rightarrow> (exn + string option) \<times> 'a os_scheme" where
  "check_cmd program_name w =
     (case which_exe program_name w of
        (Inl e, w1) \<Rightarrow> (Inl e, w1)
      | (Inr (Some _), w1) \<Rightarrow> (Inr (Some program_name), w1)
      | (Inr None, w1) \<Rightarrow>
          (case which_exe (program_name @ ''.exe'') w1 of
             (Inl e, w2) \<Rightarrow> (Inl e, w2)
           | (Inr (Some _), w2) \<Rightarrow> (Inr (Some (program_name @ ''.exe'')), w2)
           | (Inr None, w2) \<Rightarrow> (Inr None, w2)))"

definition executable_file :: "'a os_scheme \<Rightarrow> string \<Rightarrow> bool" where
  \<comment> \<open>the path is a file, and may be executed\<close>
  "executable_file w p = (isfile (files w) p \<and> p \<in> set (executable w))"

definition candidate :: "string \<Rightarrow> string \<Rightarrow> string" where
  \<comment> \<open>the file the locator looks at in one directory of the search path\<close>
  "candidate program_name path = path_join (strip_chr CHR 0x22 path) program_name"

definition demo_os :: os where
  "demo_os = \<lparr> files = [''/usr/bin/ffmpeg'', ''/opt/bin/ffmpeg'', ''/bin/notes''],
               executable = [''/usr/bin/ffmpeg'', ''/opt/bin/ffmpeg'', ''/bin''],
               environ = [''PATH'' \<mapsto> ''/bin:/usr/bin:/opt/bin''] \<rparr>"

section \<open>What the module takes from outside\<close>

text \<open>
  Three library functions are taken as given rather than modelled in full:
  \<open>float(s)\<close>, which returns a float or raises ValueError; \<open>b.decode('utf-8')\<close>,
  which returns text or raises UnicodeDecodeError; and
  \<open>template.format(in_=a, out_=b)\<close>, which returns the command line or raises.
  \<open>DEFAULT_AUDIO_PRCS\<close> is the stage list of \<open>autosub.constants\<close>.
  \<open>run_process\<close> is what an external command does: from the command line, the
  \<open>shell\<close> flag and the files that exist, whether \<open>subprocess.check_output\<close>
  raises, and the files that exist afterwards.
\<close>

datatype pyfloat = Finite real | PosInf | NegInf | NaN
  \<comment> \<open>the values of a Python float\<close>

definition le_zero :: "pyfloat \<Rightarrow> bool" where
  \<comment> \<open>\<open>x <= 0.0\<close>; every comparison with not-a-number is false\<close>
  "le_zero x = (case x of Finite r \<Rightarrow> r \<le> 0 | PosInf \<Rightarrow> False | NegInf \<Rightarrow> True | NaN \<Rightarrow> False)"

record given =
  float_of_str :: "string \<Rightarrow> pyfloat option"
  decode_utf8 :: "string \<Rightarrow> string option"
  format_in_out :: "string \<Rightarrow> string \<Rightarrow> string \<Rightarrow> exn + string"
  DEFAULT_AUDIO_PRCS :: "string list"
  run_process :: "string \<Rightarrow> bool \<Rightarrow> string list \<Rightarrow> (exn + unit) \<times> string list"

definition isinstance :: "exn \<Rightarrow> exn \<Rightarrow> bool" where
  \<comment> \<open>the two subclass relations among the exceptions above\<close>
  "isinstance e cls =
     (e = cls \<or> (e = UnicodeDecodeError \<and> cls = ValueError)
            \<or> (e = FileNotFoundError \<and> cls = OSError))"

section \<open>SplitIntoFLACPiece\<close>

datatype arg = Lit string | Num real
  \<comment> \<open>an element of an argument vector: a string, or \<open>str(x)\<close> of a float \<open>x\<close>\<close>

record SplitIntoFLACPiece =
  source_path :: string
  include_before :: real
  include_after :: real
  ffmpeg_cmd :: string

definition SplitIntoFLACPiece_init ::
  "string \<Rightarrow> string option \<Rightarrow> real option \<Rightarrow> real option \<Rightarrow> SplitIntoFLACPiece" where
  \<comment> \<open>\<open>__init__\<close>; \<open>None\<close> is an argument left to its default\<close>
  "SplitIntoFLACPiece_init src cmd before after =
     \<lparr> source_path = src,
       include_before = (case before of None \<Rightarrow> 0.25 | Some b \<Rightarrow> b),
       include_after = (case after of None \<Rightarrow> 0.25 | Some a \<Rightarrow> a),
       ffmpeg_cmd = (case cmd of None \<Rightarrow> ''ffmpeg'' | Some c \<Rightarrow> c) \<rparr>"

text \<open>
  One call of the extractor or of the prober meets each of these steps at most once, so
  the surroundings of a call are the outcome of each step. An interrupt that arrives
  during a step is that step raising KeyboardInterrupt. The null device, which every tool
  is given as its input, is taken to open.
\<close>

record surroundings =
  os_name :: string
  tempfile_outcome :: "exn + string"               \<comment> \<open>\<open>NamedTemporaryFile\<close>: the name\<close>
  check_output_outcome :: "arg list \<Rightarrow> bool \<Rightarrow> exn + string"
  read_outcome :: "exn + string"                   \<comment> \<open>\<open>temp.read()\<close>\<close>
  close_outcome :: "exn + unit"                    \<comment> \<open>\<open>temp.close()\<close>\<close>
  unlink_outcome :: "exn + unit"                   \<comment> \<open>\<open>os.unlink(temp.name)\<close>\<close>

definition SplitIntoFLACPiece_try ::
  "SplitIntoFLACPiece \<Rightarrow> surroundings \<Rightarrow> int \<times> int \<Rightarrow> (exn + string) \<times> (arg list \<times> bool) list" where
  \<comment> \<open>the body of \<open>try\<close>; the second component lists the invocations made\<close>
  "SplitIntoFLACPiece_try self env region =
     (let (start_ms, end_ms) = region;
          start = real_of_int start_ms / 1000;
          end = real_of_int end_ms / 1000;
          start = max 0 (start - include_before self);
          end = end + include_after self
      in case tempfile_outcome env of
           Inl e \<Rightarrow> (Inl e, [])
         | Inr temp_name \<Rightarrow>
            (let command = [Lit (ffmpeg_cmd self), Lit ''-ss'', Num start, Lit ''-t'',
                            Num (end - start), Lit ''-y'', Lit ''-i'', Lit (source_path self),
                            Lit ''-c'', Lit ''copy'', Lit ''-loglevel'', Lit ''error'',
                            Lit temp_name];
                 use_shell = (os_name env = ''nt'')
             in case check_output_outcome env command use_shell of
                  Inl e \<Rightarrow> (Inl e, [(command, use_shell)])
                | Inr _ \<Rightarrow>
                   (case read_outcome env of
                      Inl e \<Rightarrow> (Inl e, [(command, use_shell)])
                    | Inr read_data \<Rightarrow>
                       (case close_outcome env of
                          Inl e \<Rightarrow> (Inl e, [(command, use_shell)])
                        | Inr _ \<Rightarrow>
                           (case unlink_outcome env of
                              Inl e \<Rightarrow> (Inl e, [(command, use_shell)])
                            | Inr _ \<Rightarrow> (Inr read_data, [(command, use_shell)]))))))"

definition SplitIntoFLACPiece_call ::
  "SplitIntoFLACPiece \<Rightarrow> surroundings \<Rightarrow> int \<times> int
     \<Rightarrow> (exn + string option) \<times> (arg list \<times> bool) list" where
  \<comment> \<open>\<open>__call__\<close>: \<open>except KeyboardInterrupt: return None\<close>\<close>
  "SplitIntoFLACPiece_call self env region =
     (case SplitIntoFLACPiece_try self env region of
        (Inr read_data, calls) \<Rightarrow> (Inr (Some read_data), calls)
      | (Inl e, calls) \<Rightarrow>
          if isinstance e KeyboardInterrupt then (Inr None, calls) else (Inl e, calls))"

section \<open>ffprobe\_get\_fps\<close>

definition is_digit :: "char \<Rightarrow> bool" where
  "is_digit c = (48 \<le> (of_char c :: nat) \<and> (of_char c :: nat) \<le> 57)"

function findall_digits :: "string \<Rightarrow> string list" where
  \<comment> \<open>\<open>re.findall(r'\d+', s)\<close>: the maximal runs of digits, left to right\<close>
  "findall_digits [] = []"
| "findall_digits (c # cs) =
     (if is_digit c
      then (c # takeWhile is_digit cs) # findall_digits (dropWhile is_digit cs)
      else findall_digits cs)"
  by pat_completeness auto
termination
  by (relation "measure length") (auto simp: length_dropWhile_le less_Suc_eq_le)

definition int_of_digits :: "string \<Rightarrow> int" where
  \<comment> \<open>\<open>int(s)\<close> on a run of digits\<close>
  "int_of_digits s = foldl (\<lambda>n c. 10 * n + (int (of_char c) - 48)) 0 s"

text \<open>
  In Python 3 \<open>map\<close> returns an iterator: \<open>list\<close> draws every item out of it and
  leaves it exhausted, and it cannot be subscripted.
\<close>

datatype 'a map_object = Map_object "'a list"
  \<comment> \<open>a map iterator, with the items it has still to yield\<close>

definition py_map :: "('a \<Rightarrow> 'b) \<Rightarrow> 'a list \<Rightarrow> 'b map_object" where
  "py_map f xs = Map_object (map f xs)"

definition py_list :: "'a map_object \<Rightarrow> 'a list \<times> 'a map_object" where
  "py_list m = (case m of Map_object xs \<Rightarrow> (xs, Map_object []))"

definition py_getitem :: "'a map_object \<Rightarrow> nat \<Rightarrow> exn + 'a" where
  \<comment> \<open>\<open>m[i]\<close> raises: a map object is not subscriptable\<close>
  "py_getitem m i = Inl TypeError"

definition ffprobe_command :: "string \<Rightarrow> arg list" where
  "ffprobe_command video_file =
     [Lit ''ffprobe'', Lit ''-v'', Lit ''0'', Lit ''-of'', Lit ''csv=p=0'',
      Lit ''-select_streams'', Lit ''v:0'', Lit ''-show_entries'',
      Lit ''stream=r_frame_rate'', Lit video_file]"

definition ffprobe_try :: "'a given_scheme \<Rightarrow> surroundings \<Rightarrow> string \<Rightarrow> exn + pyfloat" where
  \<comment> \<open>the body of the outer \<open>try\<close>\<close>
  "ffprobe_try G env video_file =
     (let command = ffprobe_command video_file;
          use_shell = (os_name env = ''nt'')
      in case check_output_outcome env command use_shell of
           Inl e \<Rightarrow> Inl e
         | Inr input_str \<Rightarrow>
            (case decode_utf8 G input_str of
               None \<Rightarrow> Inl UnicodeDecodeError
             | Some text \<Rightarrow>
                (let num_list = py_map int_of_digits (findall_digits text);
                     (items, num_list) = py_list num_list
                 in if length items = 2 then
                      (case py_getitem num_list 0 of
                         Inl e \<Rightarrow> Inl e
                       | Inr a \<Rightarrow>
                          (case py_getitem num_list 1 of
                             Inl e \<Rightarrow> Inl e
                           | Inr b \<Rightarrow>
                              if real_of_int b = 0 then Inl ZeroDivisionError
                              else Inr (Finite (real_of_int a / real_of_int b))))
                    else Inl ValueError)))"

definition ffprobe_get_fps ::
  "'a given_scheme \<Rightarrow> surroundings \<Rightarrow> string \<Rightarrow> string list option
     \<Rightarrow> (exn + pyfloat) \<times> nat" where
  \<comment> \<open>\<open>input_m\<close> is \<open>None\<close>, or the capability, given by the answers it will return
      call after call (EOFError once they are used up). The second component of the result
      counts the calls of \<open>input_m\<close>.\<close>
  "ffprobe_get_fps G env video_file input_m =
     (case ffprobe_try G env video_file of
        Inr fps \<Rightarrow> (Inr fps, 0)
      | Inl e \<Rightarrow>
         if isinstance e CalledProcessError \<or> isinstance e ValueError then
           (case input_m of
              Some answers \<Rightarrow>
               (case answers of
                  [] \<Rightarrow> (Inl EOFError, 1)
                | input_str # _ \<Rightarrow>
                   (case float_of_str G input_str of
                      None \<Rightarrow> (Inr (Finite 0), 1)
                    | Some fps \<Rightarrow>
                        if le_zero fps then (Inr (Finite 0), 1) else (Inr fps, 1)))
            | None \<Rightarrow> (Inr (Finite 0), 0))
         else (Inl e, 0))"

section \<open>audio\_pre\_prcs\<close>

subsection \<open>Library functions\<close>

definition rfind :: "char \<Rightarrow> string \<Rightarrow> int" where
  \<comment> \<open>\<open>s.rfind(c)\<close>: the index of the last occurrence, or -1\<close>
  "rfind c s =
     (if c \<in> set s then int (length s) - 1 - int (length (takeWhile (\<lambda>x. x \<noteq> c) (rev s)))
      else - 1)"

definition splitext :: "string \<Rightarrow> string \<times> string" where
  \<comment> \<open>\<open>posixpath.splitext\<close>: the extension starts at the last dot of the last
      component, unless only dots stand before it in that component\<close>
  "splitext p =
     (let sepIndex = rfind CHR ''/'' p;
          dotIndex = rfind CHR ''.'' p
      in if dotIndex > sepIndex \<and>
            list_ex (\<lambda>c. c \<noteq> CHR ''.'')
              (take (nat (dotIndex - (sepIndex + 1))) (drop (nat (sepIndex + 1)) p))
         then (take (nat dotIndex) p, drop (nat dotIndex) p)
         else (p, []))"

function str_replace :: "string \<Rightarrow> string \<Rightarrow> string \<Rightarrow> string" where
  \<comment> \<open>\<open>s.replace(old, new)\<close> for a non-empty \<open>old\<close>: the occurrences are replaced
      from the left, without overlap\<close>
  "str_replace old new [] = []"
| "str_replace old new (c # cs) =
     (if old \<noteq> [] \<and> take (length old) (c # cs) = old
      then new @ str_replace old new (drop (length old) (c # cs))
      else c # str_replace old new cs)"
  by pat_completeness auto
termination
  by (relation "measure (\<lambda>(old, new, s). length s)") auto

function str_nat :: "nat \<Rightarrow> string" where
  \<comment> \<open>\<open>str(n)\<close>\<close>
  "str_nat n =
     (if n < 10 then [''0123456789'' ! n]
      else str_nat (n div 10) @ [''0123456789'' ! (n mod 10)])"
  by pat_completeness auto
termination
  by (relation "measure id") auto

declare str_nat.simps [simp del]

subsection \<open>The file system and what the runner does to it\<close>

datatype event =
    Created string     \<comment> \<open>\<open>NamedTemporaryFile\<close> made this file\<close>
  | Removed string     \<comment> \<open>\<open>os.remove\<close> deleted this file\<close>
  | Prompted string    \<comment> \<open>\<open>input_m\<close> was called, this path being taken\<close>
  | Stage nat string string string bool "string list"
      \<comment> \<open>\<open>check_output\<close> was called for stage \<open>i\<close>: the stage's input path, its output
          path, the command line passed, the \<open>shell\<close> flag passed, and the files that
          existed at that moment\<close>

record world = os +
  temp_names :: "string list"  \<comment> \<open>the random stems \<open>tempfile\<close> will try, in order\<close>
  trace :: "event list"

definition NamedTemporaryFile :: "string \<Rightarrow> world \<Rightarrow> (exn + string) \<times> world" where
  \<comment> \<open>\<open>NamedTemporaryFile(suffix=..., delete=False)\<close>: the first candidate name at
      which nothing exists is created; the result is its name\<close>
  "NamedTemporaryFile suffix w =
     (case dropWhile (\<lambda>n. isfile (files w) (n @ suffix)) (temp_names w) of
        [] \<Rightarrow> (Inl OSError, w\<lparr>temp_names := []\<rparr>)
      | n # rest \<Rightarrow>
          (Inr (n @ suffix),
           w\<lparr>files := (n @ suffix) # files w, temp_names := rest,
              trace := trace w @ [Created (n @ suffix)]\<rparr>))"

definition os_remove :: "string \<Rightarrow> world \<Rightarrow> (exn + unit) \<times> world" where
  "os_remove p w =
     (if isfile (files w) p
      then (Inr (), w\<lparr>files := removeAll p (files w), trace := trace w @ [Removed p]\<rparr>)
      else (Inl FileNotFoundError, w))"

definition splice_override :: "string \<Rightarrow> string \<Rightarrow> string" where
  \<comment> \<open>\<open>command[:7].replace('ffmpeg ', ffmpeg_cmd + ' ') + command[7:]\<close>\<close>
  "splice_override tool command =
     str_replace ''ffmpeg '' (tool @ '' '') (take 7 command) @ drop 7 command"

definition run_stage ::
  "'a given_scheme \<Rightarrow> string option \<Rightarrow> nat \<Rightarrow> string \<Rightarrow> string \<Rightarrow> string \<Rightarrow> world
     \<Rightarrow> (exn + unit) \<times> world" where
  \<comment> \<open>the three places that format a template and run it; \<open>override\<close> is the tool name
      where the place splices it in, and \<open>None\<close> where it does not. The stage's input is
      read from \<open>os.devnull\<close>, which opens.\<close>
  "run_stage G override i template in_path out_path w =
     (case format_in_out G template in_path out_path of
        Inl e \<Rightarrow> (Inl e, w)
      | Inr command \<Rightarrow>
         (let command = (case override of
                           None \<Rightarrow> command
                         | Some c \<Rightarrow> splice_override c command);
              (r, fs) = run_process G command False (files w)
          in (r, w\<lparr>files := fs,
                    trace := trace w @ [Stage i in_path out_path command False (files w)]\<rparr>)))"

subsection \<open>Keep mode\<close>

fun prompt_loop :: "string \<Rightarrow> string list \<Rightarrow> world \<Rightarrow> (exn + string) \<times> string list \<times> world" where
  \<comment> \<open>the \<open>while os.path.isfile(output_list[i])\<close> loop; the list holds the answers
      \<open>input_m\<close> has still to give\<close>
  "prompt_loop out [] w =
     (if isfile (files w) out
      then (Inl EOFError, [], w\<lparr>trace := trace w @ [Prompted out]\<rparr>)
      else (Inr out, [], w))"
| "prompt_loop out (answer # rest) w =
     (if isfile (files w) out
      then prompt_loop (fst (splitext answer) @ ''.'' @ ''temp.flac'') rest
             (w\<lparr>trace := trace w @ [Prompted out]\<rparr>)
      else (Inr out, answer # rest, w))"

definition choose_output ::
  "string list option \<Rightarrow> string \<Rightarrow> world \<Rightarrow> (exn + string) \<times> string list option \<times> world" where
  \<comment> \<open>\<open>if input_m: ... else: ...\<close> of keep mode\<close>
  "choose_output input_m out w =
     (case input_m of
        Some answers \<Rightarrow>
          (case prompt_loop out answers w of (r, answers', w') \<Rightarrow> (r, Some answers', w'))
      | None \<Rightarrow>
          if isfile (files w) out then
            (case os_remove out w of
               (Inl e, w') \<Rightarrow> (Inl e, None, w')
             | (Inr _, w') \<Rightarrow> (Inr out, None, w'))
          else (Inr out, None, w))"

fun keep_loop ::
  "'a given_scheme \<Rightarrow> string \<Rightarrow> string \<Rightarrow> nat \<Rightarrow> string list \<Rightarrow> string list option
     \<Rightarrow> string list \<Rightarrow> world \<Rightarrow> (exn + string list) \<times> world" where
  \<comment> \<open>\<open>for i in range(1, len(cmds) + 1)\<close>, from \<open>i\<close> on; the template list holds
      \<open>cmds[i - 1:]\<close>, and \<open>output_list\<close> has \<open>i\<close> elements, so that its last is
      \<open>output_list[i - 1]\<close>\<close>
  "keep_loop G tool stem i [] input_m output_list w = (Inr output_list, w)"
| "keep_loop G tool stem i (template # cmds) input_m output_list w =
     (case choose_output input_m (stem @ ''_temp_'' @ str_nat i @ ''.flac'') w of
        (Inl e, _, w1) \<Rightarrow> (Inl e, w1)
      | (Inr out, input_m', w1) \<Rightarrow>
         (case run_stage G (Some tool) i template (last output_list) out w1 of
            (Inl e, w2) \<Rightarrow> (Inl e, w2)
          | (Inr _, w2) \<Rightarrow>
              keep_loop G tool stem (Suc i) cmds input_m' (output_list @ [out]) w2))"

subsection \<open>Scratch mode\<close>

definition fresh_temp :: "world \<Rightarrow> (exn + string) \<times> world" where
  \<comment> \<open>allocate a temporary file, close it, and remove it if it is a file\<close>
  "fresh_temp w =
     (case NamedTemporaryFile ''.flac'' w of
        (Inl e, w1) \<Rightarrow> (Inl e, w1)
      | (Inr temp, w1) \<Rightarrow>
          if isfile (files w1) temp then
            (case os_remove temp w1 of
               (Inl e, w2) \<Rightarrow> (Inl e, w2)
             | (Inr _, w2) \<Rightarrow> (Inr temp, w2))
          else (Inr temp, w1))"

fun scratch_loop ::
  "'a given_scheme \<Rightarrow> string \<Rightarrow> nat \<Rightarrow> string list \<Rightarrow> string list \<Rightarrow> world
     \<Rightarrow> (exn + string list) \<times> world" where
  \<comment> \<open>\<open>for i in range(2, len(cmds) + 1)\<close>, from \<open>i\<close> on, with \<open>cmds[i - 1:]\<close>\<close>
  "scratch_loop G tool i [] output_list w = (Inr output_list, w)"
| "scratch_loop G tool i (template # cmds) output_list w =
     (case fresh_temp w of
        (Inl e, w1) \<Rightarrow> (Inl e, w1)
      | (Inr temp, w1) \<Rightarrow>
         (case run_stage G (Some tool) i template (last output_list) temp w1 of
            (Inl e, w2) \<Rightarrow> (Inl e, w2)
          | (Inr _, w2) \<Rightarrow>
             (case os_remove (last output_list) w2 of
                (Inl e, w3) \<Rightarrow> (Inl e, w3)
              | (Inr _, w3) \<Rightarrow>
                  scratch_loop G tool (Suc i) cmds (output_list @ [temp]) w3)))"

definition audio_pre_prcs ::
  "'a given_scheme \<Rightarrow> world \<Rightarrow> string \<Rightarrow> bool \<Rightarrow> string list \<Rightarrow> string list option \<Rightarrow> string
     \<Rightarrow> (exn + string) \<times> world" where
  "audio_pre_prcs G w filename is_keep cmds input_m tool =
     (let name_list = splitext filename;
          output_list = [filename];
          cmds = (if cmds = [] then DEFAULT_AUDIO_PRCS G else cmds)
      in if is_keep then
           (case keep_loop G tool (fst name_list) 1 cmds input_m output_list w of
              (Inl e, w') \<Rightarrow> (Inl e, w')
            | (Inr output_list, w') \<Rightarrow> (Inr (last output_list), w'))
         else
           (case fresh_temp w of
              (Inl e, w1) \<Rightarrow> (Inl e, w1)
            | (Inr temp, w1) \<Rightarrow>
               (case cmds of
                  [] \<Rightarrow> (Inl IndexError, w1)
                | template # rest \<Rightarrow>
                   (case run_stage G None 1 template filename temp w1 of
                      (Inl e, w2) \<Rightarrow> (Inl e, w2)
                    | (Inr _, w2) \<Rightarrow>
                       (case scratch_loop G tool 2 rest (output_list @ [temp]) w2 of
                          (Inl e, w3) \<Rightarrow> (Inl e, w3)
                        | (Inr output_list, w3) \<Rightarrow> (Inr (last output_list), w3))))))"

section \<open>Instances to run the functions on\<close>

definition plain_float :: "string \<Rightarrow> pyfloat option" where
  \<comment> \<open>\<open>float\<close> as far as \<open>nan\<close>, \<open>inf\<close>, \<open>-inf\<close> and an optionally signed run of
      digits; it rejects any other text, and is used only on these and on text that
      \<open>float\<close> rejects as well\<close>
  "plain_float s =
     (if s = ''nan'' then Some NaN
      else if s = ''inf'' then Some PosInf
      else if s = ''-inf'' then Some NegInf
      else
        (let body = (case s of
                       [] \<Rightarrow> []
                     | c # cs \<Rightarrow> if c = CHR ''-'' \<or> c = CHR ''+'' then cs else s)
         in if body \<noteq> [] \<and> list_all is_digit body
            then Some (Finite ((if take 1 s = ''-'' then - 1 else 1)
                                * real_of_int (int_of_digits body)))
            else None))"

definition ascii_decode :: "string \<Rightarrow> string option" where
  \<comment> \<open>UTF-8 decoding as far as ASCII, where it is the identity\<close>
  "ascii_decode b = (if list_all (\<lambda>c. (of_char c :: nat) < 128) b then Some b else None)"

function plain_format :: "string \<Rightarrow> string \<Rightarrow> string \<Rightarrow> exn + string" where
  \<comment> \<open>\<open>str.format\<close> as far as literal text, the doubled braces and the plain fields
      \<open>{in_}\<close> and \<open>{out_}\<close>; any other field is answered as an unknown name is\<close>
  "plain_format [] a b = Inr []"
| "plain_format (c # cs) a b =
     (if c = CHR ''{'' then
        (if take 1 cs = ''{'' then map_sum id ((#) c) (plain_format (drop 1 cs) a b)
         else
           (let field = takeWhile (\<lambda>x. x \<noteq> CHR ''}'') cs;
                rest = dropWhile (\<lambda>x. x \<noteq> CHR ''}'') cs
            in if rest = [] then Inl ValueError
               else if field = ''in_'' then map_sum id ((@) a) (plain_format (tl rest) a b)
               else if field = ''out_'' then map_sum id ((@) b) (plain_format (tl rest) a b)
               else Inl KeyError))
      else if c = CHR ''}'' then
        (if take 1 cs = ''}'' then map_sum id ((#) c) (plain_format (drop 1 cs) a b)
         else Inl ValueError)
      else map_sum id ((#) c) (plain_format cs a b))"
  by pat_completeness auto
termination
  by (relation "measure (\<lambda>(s, a, b). length s)")
     (auto simp: less_Suc_eq_le length_dropWhile_le intro: le_trans [OF diff_le_self])

definition write_last_word :: "string \<Rightarrow> bool \<Rightarrow> string list \<Rightarrow> (exn + unit) \<times> string list" where
  \<comment> \<open>a tool that writes the file named by the last word of its command line\<close>
  "write_last_word command shell fs =
     (Inr (), List.insert (last (str_split CHR '' '' command)) fs)"

definition demo_given :: given where
  "demo_given = \<lparr> float_of_str = plain_float, decode_utf8 = ascii_decode,
                  format_in_out = plain_format,
                  DEFAULT_AUDIO_PRCS = [''ffmpeg -i {in_} {out_}''],
                  run_process = write_last_word \<rparr>"

definition demo_surroundings :: "exn + string \<Rightarrow> surroundings" where
  \<comment> \<open>surroundings in which every step succeeds, but for the tool, whose outcome is given\<close>
  "demo_surroundings outcome =
     \<lparr> os_name = ''posix'', tempfile_outcome = Inr ''/tmp/tmpa.flac'',
       check_output_outcome = (\<lambda>command shell. outcome),
       read_outcome = Inr ''fLaC'', close_outcome = Inr (), unlink_outcome = Inr () \<rparr>"

definition demo_world :: "string list \<Rightarrow> world" where
  "demo_world fs =
     \<lparr> files = fs, executable = [], environ = Map.empty,
       temp_names = [''/tmp/tmp1'', ''/tmp/tmp2'', ''/tmp/tmp3''], trace = [] \<rparr>"

definition demo_keep_two :: "(exn + string) \<times> world" where
  "demo_keep_two =
     audio_pre_prcs demo_given (demo_world [''a.wav'']) ''a.wav'' True
       [''ffmpeg -i {in_} {out_}'', ''ffmpeg -y -i {in_} {out_}''] None ''avconv''"

definition demo_scratch_two :: "(exn + string) \<times> world" where
  "demo_scratch_two =
     audio_pre_prcs demo_given (demo_world [''a.wav'']) ''a.wav'' False
       [''ffmpeg -i {in_} {out_}'', ''ffmpeg -y -i {in_} {out_}''] None ''avconv''"

definition demo_scratch_one :: "(exn + string) \<times> world" where
  "demo_scratch_one =
     audio_pre_prcs demo_given (demo_world [''a.wav'']) ''a.wav'' False
       [''ffmpeg -i {in_} {out_}''] None ''ffmpeg''"

definition demo_keep_prompt :: "(exn + string) \<times> world" where
  "demo_keep_prompt =
     audio_pre_prcs demo_given (demo_world [''a.wav'', ''a_temp_1.flac'']) ''a.wav'' True []
       (Some [''/tmp/alt'']) ''ffmpeg''"

definition demo_keep_delete :: "(exn + string) \<times> world" where
  "demo_keep_delete =
     audio_pre_prcs demo_given (demo_world [''a.wav'', ''a_temp_1.flac'']) ''a.wav'' True []
       None ''ffmpeg''"

section \<open>Notions used in the statements\<close>

definition caught :: "exn \<Rightarrow> bool" where
  \<comment> \<open>\<open>except (subprocess.CalledProcessError, ValueError)\<close> handles the exception\<close>
  "caught e = (isinstance e CalledProcessError \<or> isinstance e ValueError)"

definition prober_gave_no_rate :: "'a given_scheme \<Rightarrow> surroundings \<Rightarrow> string \<Rightarrow> bool" where
  \<comment> \<open>the prober's invocation raised an exception that is handled (it exited with a
      non-zero status), or its output cannot be decoded or does not hold exactly two runs
      of digits\<close>
  "prober_gave_no_rate G env video_file =
     (case check_output_outcome env (ffprobe_command video_file) (os_name env = ''nt'') of
        Inl e \<Rightarrow> caught e
      | Inr out \<Rightarrow>
         (case decode_utf8 G out of
            None \<Rightarrow> True
          | Some text \<Rightarrow> length (findall_digits text) \<noteq> 2))"

definition stages :: "'a given_scheme \<Rightarrow> string list \<Rightarrow> string list" where
  \<comment> \<open>the stage list a call runs: \<open>cmds\<close>, or the default list when \<open>cmds\<close> is empty\<close>
  "stages G cmds = (if cmds = [] then DEFAULT_AUDIO_PRCS G else cmds)"

definition stage_as_coded :: "'a given_scheme \<Rightarrow> string list \<Rightarrow> string \<Rightarrow> bool \<Rightarrow> event \<Rightarrow> bool" where
  \<comment> \<open>what the runner does at a stage: stage \<open>j\<close> runs template \<open>j\<close>, formatted with
      its input and output path, without a shell; the tool name is spliced in at every
      stage of keep mode and at the stages from the second on of scratch mode\<close>
  "stage_as_coded G cmds tool is_keep ev =
     (case ev of
        Stage j a b c sh fs \<Rightarrow>
          \<not> sh \<and> 1 \<le> j \<and> j \<le> length cmds \<and>
          (case format_in_out G (cmds ! (j - 1)) a b of
             Inl _ \<Rightarrow> False
           | Inr c0 \<Rightarrow> c = (if is_keep \<or> 2 \<le> j then splice_override tool c0 else c0))
      | _ \<Rightarrow> True)"

definition events_of_run :: "world \<Rightarrow> world \<Rightarrow> event list" where
  \<comment> \<open>the events a run has added to the trace, from the world before and after\<close>
  "events_of_run w w' = drop (length (trace w)) (trace w')"

definition no_shell :: "event \<Rightarrow> bool" where
  \<comment> \<open>the event is no invocation through the shell\<close>
  "no_shell ev = (case ev of Stage j a b c sh fs \<Rightarrow> \<not> sh | _ \<Rightarrow> True)"

definition override_spliced ::
  "'a given_scheme \<Rightarrow> string list \<Rightarrow> string \<Rightarrow> bool \<Rightarrow> event \<Rightarrow> bool" where
  \<comment> \<open>at a stage of keep mode, and at a stage from the second on of scratch mode, the
      command line run is the formatted template with its leading \<open>ffmpeg\<close> and space, if
      it has them, replaced by the tool name and a space\<close>
  "override_spliced G cmds tool is_keep ev =
     (case ev of
        Stage j a b c sh fs \<Rightarrow>
          (\<not> is_keep \<and> j < 2) \<or>
          (case format_in_out G (cmds ! (j - 1)) a b of
             Inl _ \<Rightarrow> False
           | Inr c0 \<Rightarrow> c = (if take 7 c0 = ''ffmpeg '' then tool @ '' '' @ drop 7 c0 else c0))
      | _ \<Rightarrow> True)"

definition outputs_fresh :: "event list \<Rightarrow> bool" where
  \<comment> \<open>every invocation in the list comes right after the creation and the removal of
      the file at its output path, and sees no file there\<close>
  "outputs_fresh es =
     (\<forall>k<length es.
        case es ! k of
          Stage j a b c sh fs \<Rightarrow>
            2 \<le> k \<and> es ! (k - 2) = Created b \<and> es ! (k - 1) = Removed b \<and> b \<notin> set fs
        | _ \<Rightarrow> True)"

datatype act = Allocate string | Delete string | Invoke nat string string | Prompt string
  \<comment> \<open>what an event does to which file; an invocation with the stage's number, its input
      path and its output path\<close>

fun act_of :: "event \<Rightarrow> act" where
  "act_of (Created t) = Allocate t"
| "act_of (Removed t) = Delete t"
| "act_of (Stage j a b c sh fs) = Invoke j a b"
| "act_of (Prompted t) = Prompt t"

fun allocated :: "event list \<Rightarrow> string list" where
  \<comment> \<open>the temporary files a run has created, in order\<close>
  "allocated [] = []"
| "allocated (Created t # es) = t # allocated es"
| "allocated (Removed t # es) = allocated es"
| "allocated (Stage j a b c sh fs # es) = allocated es"
| "allocated (Prompted t # es) = allocated es"

fun scratch_acts :: "nat \<Rightarrow> string \<Rightarrow> string list \<Rightarrow> act list" where
  \<comment> \<open>scratch mode from stage \<open>i\<close> on, \<open>prev\<close> being the stage's input and the list the
      temporary files of the stages: the file is allocated and deleted, the stage is run
      from \<open>prev\<close> to it, and then \<open>prev\<close> is deleted unless the stage is the first,
      whose input is the source\<close>
  "scratch_acts i prev [] = []"
| "scratch_acts i prev (t # ts) =
     [Allocate t, Delete t, Invoke i prev t] @ (if i = 1 then [] else [Delete prev]) @
     scratch_acts (Suc i) t ts"

fun deletions :: "act list \<Rightarrow> string list" where
  \<comment> \<open>the files deleted, in order\<close>
  "deletions [] = []"
| "deletions (Delete p # as) = p # deletions as"
| "deletions (Allocate t # as) = deletions as"
| "deletions (Invoke j a b # as) = deletions as"
| "deletions (Prompt t # as) = deletions as"

fun deleted_at_once :: "act list \<Rightarrow> string list" where
  \<comment> \<open>the files deleted directly after their allocation\<close>
  "deleted_at_once (Allocate t # Delete p # as) = (if p = t then [t] else []) @ deleted_at_once as"
| "deleted_at_once (a # as) = deleted_at_once as"
| "deleted_at_once [] = []"

fun deleted_after_stage :: "act list \<Rightarrow> string list" where
  \<comment> \<open>the files deleted directly after a stage has been run\<close>
  "deleted_after_stage (Invoke j a b # Delete p # as) = p # deleted_after_stage as"
| "deleted_after_stage (a # as) = deleted_after_stage as"
| "deleted_after_stage [] = []"

definition upcoming_temps :: "world \<Rightarrow> string list" where
  \<comment> \<open>the paths \<open>NamedTemporaryFile(suffix='.flac')\<close> may still hand out\<close>
  "upcoming_temps w = map (\<lambda>n. n @ ''.flac'') (temp_names w)"

definition derived_path :: "string \<Rightarrow> nat \<Rightarrow> string" where
  \<comment> \<open>the path keep mode derives for the output of stage \<open>i\<close>\<close>
  "derived_path filename i = fst (splitext filename) @ ''_temp_'' @ str_nat i @ ''.flac''"

definition renamed :: "string \<Rightarrow> string" where
  \<comment> \<open>the path keep mode makes of an answer to its prompt\<close>
  "renamed answer = fst (splitext answer) @ ''.temp.flac''"

definition candidates :: "string \<Rightarrow> string list \<Rightarrow> string list" where
  \<comment> \<open>the paths keep mode tries in turn: the derived one, then one for each answer\<close>
  "candidates out answers = out # map renamed answers"

definition before_stage :: "string list option \<Rightarrow> string \<Rightarrow> string list \<Rightarrow> event list" where
  \<comment> \<open>what keep mode does before it runs a stage, from the derived path and the files
      that exist: without the capability the file at the derived path is removed, if there
      is one; with it, one prompt is made for each of the paths to try at which a file
      exists, up to the first at which none does\<close>
  "before_stage input_m derived cur =
     (case input_m of
        None \<Rightarrow> if derived \<in> set cur then [Removed derived] else []
      | Some answers \<Rightarrow>
          map Prompted (takeWhile (\<lambda>p. p \<in> set cur) (candidates derived answers)))"

definition output_path :: "string list option \<Rightarrow> string \<Rightarrow> string list \<Rightarrow> string option" where
  \<comment> \<open>the output path of the stage: the derived path, or with the capability the first
      of the paths to try at which no file exists\<close>
  "output_path input_m derived cur =
     (case input_m of
        None \<Rightarrow> Some derived
      | Some answers \<Rightarrow> find (\<lambda>p. p \<notin> set cur) (candidates derived answers))"

definition files_then :: "string list option \<Rightarrow> string \<Rightarrow> string list \<Rightarrow> string list" where
  \<comment> \<open>the files that exist when the stage is run\<close>
  "files_then input_m derived cur =
     (case input_m of None \<Rightarrow> removeAll derived cur | Some answers \<Rightarrow> cur)"

definition answers_left ::
  "string list option \<Rightarrow> string \<Rightarrow> string list \<Rightarrow> string list option" where
  \<comment> \<open>the answers the capability has still to give: one was taken at each prompt\<close>
  "answers_left input_m derived cur =
     (case input_m of
        None \<Rightarrow> None
      | Some answers \<Rightarrow> Some (drop (length (before_stage input_m derived cur)) answers))"

fun keep_run ::
  "'a given_scheme \<Rightarrow> string \<Rightarrow> string list option \<Rightarrow> nat \<Rightarrow> nat \<Rightarrow> string list \<Rightarrow> event list
     \<Rightarrow> event list \<Rightarrow> bool" where
  \<comment> \<open>the events of a keep-mode run from stage \<open>i\<close> on, with \<open>k\<close> stages to go, \<open>cur\<close>
      the files that exist when the choice of the stage's output path begins, and
      \<open>before\<close> the events since then. Up to a stage's invocation the events are those of
      \<open>before_stage\<close> and no others; the invocation is that of stage \<open>i\<close>, its output
      is the path of \<open>output_path\<close>, and no file exists there; the next stage follows if
      the command succeeded. A run that ends where stages are left has done all of
      \<open>before_stage\<close>.\<close>
  "keep_run G filename input_m i k cur before [] =
     (before = (if k = 0 then [] else before_stage input_m (derived_path filename i) cur))"
| "keep_run G filename input_m i k cur before (Stage j a b c sh fs # es) =
     (0 < k \<and> j = i \<and>
      before = before_stage input_m (derived_path filename i) cur \<and>
      output_path input_m (derived_path filename i) cur = Some b \<and>
      fs = files_then input_m (derived_path filename i) cur \<and>
      b \<notin> set fs \<and>
      (case fst (run_process G c sh fs) of
         Inl e \<Rightarrow> es = []
       | Inr u \<Rightarrow>
           keep_run G filename (answers_left input_m (derived_path filename i) cur) (Suc i)
             (k - 1) (snd (run_process G c sh fs)) [] es))"
| "keep_run G filename input_m i k cur before (Created t # es) =
     keep_run G filename input_m i k cur (before @ [Created t]) es"
| "keep_run G filename input_m i k cur before (Removed t # es) =
     keep_run G filename input_m i k cur (before @ [Removed t]) es"
| "keep_run G filename input_m i k cur before (Prompted t # es) =
     keep_run G filename input_m i k cur (before @ [Prompted t]) es"

definition no_removal :: "event \<Rightarrow> bool" where
  \<comment> \<open>the event is no removal of a file\<close>
  "no_removal ev = (case ev of Removed t \<Rightarrow> False | _ \<Rightarrow> True)"

section \<open>Properties of the locator\<close>

lemma path_split_head: "fst (path_split p) \<noteq> [] \<longleftrightarrow> CHR ''/'' \<in> set p"
proof -
  define t where "t = takeWhile (\<lambda>c. c \<noteq> CHR ''/'') (rev p)"
  define i where "i = length p - length t"
  define h where "h = take i p"
  have ps: "fst (path_split p) =
      (if h \<noteq> [] \<and> h \<noteq> replicate (length h) CHR ''/'' then rstrip_chr CHR ''/'' h else h)"
    by (simp add: path_split_def Let_def i_def t_def h_def)
  have len: "length t \<le> length p"
    unfolding t_def using length_takeWhile_le [of "\<lambda>c. c \<noteq> CHR ''/''" "rev p"] by simp
  show ?thesis
  proof (cases "CHR ''/'' \<in> set p")
    case False
    then have "t = rev p" unfolding t_def by (auto simp: takeWhile_eq_all_conv)
    then have "h = []" by (simp add: h_def i_def)
    with False show ?thesis by (simp add: ps)
  next
    case True
    then have neq: "t \<noteq> rev p" unfolding t_def by (auto simp: takeWhile_eq_all_conv)
    have "t = take (length t) (rev p)"
      unfolding t_def by (rule takeWhile_eq_take)
    with neq have "length t \<noteq> length p" by (metis length_rev order_refl take_all)
    with len have "0 < i" by (simp add: i_def)
    moreover from True have "p \<noteq> []" by auto
    ultimately have ne: "h \<noteq> []" by (simp add: h_def)
    have "rstrip_chr CHR ''/'' h \<noteq> []" if "h \<noteq> replicate (length h) CHR ''/''"
    proof
      assume "rstrip_chr CHR ''/'' h = []"
      then have "dropWhile (\<lambda>x. x = CHR ''/'') (rev h) = []"
        by (simp add: rstrip_chr_def)
      then have "\<forall>x\<in>set h. x = CHR ''/''"
        by (simp add: dropWhile_eq_Nil_conv)
      then have "h = replicate (length h) CHR ''/''"
        by (simp add: replicate_length_same)
      with that show False by simp
    qed
    with ne True show ?thesis by (auto simp: ps)
  qed
qed

lemma is_exe_reads: "is_exe p w = (executable_file w p, w)"
  by (simp add: is_exe_def os_path_isfile_def os_access_X_OK_def executable_file_def)

lemma scan_path_find:
  "scan_path n ds w =
     (map_option (candidate n) (find (\<lambda>d. executable_file w (candidate n d)) ds), w)"
  by (induction ds) (simp_all add: candidate_def Let_def is_exe_reads)

text \<open>
  C9, as stated, fails for a bare name when \<open>PATH\<close> is not set: \<open>os.environ["PATH"]\<close>
  raises KeyError, which is not an absent result.
\<close>

theorem which_exe_without_search_path:
  "fst (which_exe ''ffmpeg'' (demo_os\<lparr>environ := Map.empty\<rparr>)) = Inl KeyError"
  by (simp add: which_exe_def path_split_def environ_getitem_def)

text \<open>
  C9, amended. The locator leaves the system as it found it. A name with a slash in it
  resolves to itself when that very path is a file with execute permission, and to nothing
  otherwise: the search path is not consulted. A bare name, when \<open>PATH\<close> is set, resolves
  to the entry of the first directory of \<open>PATH\<close>, in order, whose entry is an executable
  file, and to nothing when no directory has one; when \<open>PATH\<close> is not set, KeyError is
  raised.
\<close>

theorem which_exe_resolution:
  "snd (which_exe n w) = w \<and>
   (CHR ''/'' \<in> set n \<longrightarrow>
      fst (which_exe n w) = Inr (if executable_file w n then Some n else None)) \<and>
   (CHR ''/'' \<notin> set n \<longrightarrow>
      fst (which_exe n w) =
        (case environ w ''PATH'' of
           None \<Rightarrow> Inl KeyError
         | Some v \<Rightarrow>
             Inr (map_option (candidate n)
                    (find (\<lambda>d. executable_file w (candidate n d)) (str_split CHR '':'' v)))))"
proof -
  obtain h t where ht: "path_split n = (h, t)" by (cases "path_split n")
  then have h: "h \<noteq> [] \<longleftrightarrow> CHR ''/'' \<in> set n"
    using path_split_head [of n] by simp
  show ?thesis
    using ht h
    by (simp add: which_exe_def scan_path_find is_exe_reads environ_getitem_def
        split: option.splits)
qed

theorem which_exe_resolution_witness:
  "CHR ''/'' \<in> set ''/bin/notes'' \<and> fst (which_exe ''/bin/notes'' demo_os) = Inr None \<and>
   CHR ''/'' \<in> set ''/usr/bin/ffmpeg'' \<and>
   fst (which_exe ''/usr/bin/ffmpeg'' demo_os) = Inr (Some ''/usr/bin/ffmpeg'') \<and>
   CHR ''/'' \<notin> set ''ffmpeg'' \<and>
   fst (which_exe ''ffmpeg'' demo_os) = Inr (Some ''/usr/bin/ffmpeg'') \<and>
   CHR ''/'' \<notin> set ''ffprobe'' \<and>
   fst (which_exe ''ffprobe'' demo_os) = Inr None \<and>
   snd (which_exe ''ffmpeg'' demo_os) = demo_os"
proof -
  have a: "CHR ''/'' \<in> set ''/bin/notes''" by simp
  have a': "CHR ''/'' \<in> set ''/usr/bin/ffmpeg''" by simp
  have b: "CHR ''/'' \<notin> set ''ffmpeg''" by simp
  have b': "CHR ''/'' \<notin> set ''ffprobe''" by simp
  have d: "fst (which_exe ''/bin/notes'' demo_os) = Inr None"
    using which_exe_resolution [of "''/bin/notes''" demo_os] a
    by (simp add: executable_file_def isfile_def demo_os_def)
  have d': "fst (which_exe ''/usr/bin/ffmpeg'' demo_os) = Inr (Some ''/usr/bin/ffmpeg'')"
    using which_exe_resolution [of "''/usr/bin/ffmpeg''" demo_os] a'
    by (simp add: executable_file_def isfile_def demo_os_def)
  have e: "fst (which_exe ''ffmpeg'' demo_os) = Inr (Some ''/usr/bin/ffmpeg'')"
    using which_exe_resolution [of "''ffmpeg''" demo_os] b
    by (simp add: executable_file_def isfile_def demo_os_def candidate_def path_join_def
        strip_chr_def rstrip_chr_def)
  have e': "fst (which_exe ''ffprobe'' demo_os) = Inr None"
    using which_exe_resolution [of "''ffprobe''" demo_os] b'
    by (simp add: executable_file_def isfile_def demo_os_def candidate_def path_join_def
        strip_chr_def rstrip_chr_def)
  have f: "snd (which_exe ''ffmpeg'' demo_os) = demo_os"
    using which_exe_resolution [of "''ffmpeg''" demo_os] by simp
  from a a' b b' d d' e e' f show ?thesis by simp
qed

section \<open>Properties of the region extractor\<close>

text \<open>
  C7. For every region \<open>(s, e)\<close> (so also for \<open>s \<ge> 0\<close>) the extractor, once its temporary
  file is allocated, invokes the converter exactly once, and the argument vector it passes
  has \<open>max(0, s/1000 - before_pad)\<close> after \<open>-ss\<close> and \<open>(e/1000 + after_pad)\<close> minus that
  seek position after \<open>-t\<close>; both paddings are 0.25 when left to their defaults.
\<close>

theorem extractor_seek_and_duration:
  assumes "tempfile_outcome env = Inr t"
  shows "snd (SplitIntoFLACPiece_call (SplitIntoFLACPiece_init src cmd before after) env (s, e)) =
     [([Lit (case cmd of None \<Rightarrow> ''ffmpeg'' | Some c \<Rightarrow> c), Lit ''-ss'',
        Num (max 0 (real_of_int s / 1000 - (case before of None \<Rightarrow> 0.25 | Some b \<Rightarrow> b))),
        Lit ''-t'',
        Num ((real_of_int e / 1000 + (case after of None \<Rightarrow> 0.25 | Some a \<Rightarrow> a))
             - max 0 (real_of_int s / 1000 - (case before of None \<Rightarrow> 0.25 | Some b \<Rightarrow> b))),
        Lit ''-y'', Lit ''-i'', Lit src, Lit ''-c'', Lit ''copy'', Lit ''-loglevel'',
        Lit ''error'', Lit t],
       os_name env = ''nt'')]"
  using assms
  by (simp add: SplitIntoFLACPiece_call_def SplitIntoFLACPiece_try_def
      SplitIntoFLACPiece_init_def Let_def split: sum.splits)

theorem extractor_seek_and_duration_witness:
  "tempfile_outcome (demo_surroundings (Inr [])) = Inr ''/tmp/tmpa.flac'' \<and>
   snd (SplitIntoFLACPiece_call (SplitIntoFLACPiece_init ''a.mp4'' None None None)
          (demo_surroundings (Inr [])) (1000, 2000)) =
     [([Lit ''ffmpeg'', Lit ''-ss'', Num 0.75, Lit ''-t'', Num 1.5, Lit ''-y'', Lit ''-i'',
        Lit ''a.mp4'', Lit ''-c'', Lit ''copy'', Lit ''-loglevel'', Lit ''error'',
        Lit ''/tmp/tmpa.flac''], False)]"
proof -
  have t: "tempfile_outcome (demo_surroundings (Inr [])) = Inr ''/tmp/tmpa.flac''"
    by (simp add: demo_surroundings_def)
  show ?thesis
    using t extractor_seek_and_duration [OF t, of "''a.mp4''" None None None 1000 2000]
    by (simp add: demo_surroundings_def)
qed

text \<open>
  C8. When the body of the call raises KeyboardInterrupt the call returns \<open>None\<close>; when
  it raises any other exception the call raises that exception; when it raises nothing the
  call returns the bytes read. In particular a failure of the converter's invocation is
  passed on to the caller unless it is the interrupt.
\<close>

theorem extractor_swallows_only_interrupt:
  "(fst (SplitIntoFLACPiece_try self env r) = Inl KeyboardInterrupt \<longrightarrow>
      fst (SplitIntoFLACPiece_call self env r) = Inr None) \<and>
   (\<forall>e. e \<noteq> KeyboardInterrupt \<longrightarrow> fst (SplitIntoFLACPiece_try self env r) = Inl e \<longrightarrow>
      fst (SplitIntoFLACPiece_call self env r) = Inl e) \<and>
   (\<forall>d. fst (SplitIntoFLACPiece_try self env r) = Inr d \<longrightarrow>
      fst (SplitIntoFLACPiece_call self env r) = Inr (Some d)) \<and>
   (\<forall>t e. tempfile_outcome env = Inr t \<longrightarrow> (\<forall>c sh. check_output_outcome env c sh = Inl e) \<longrightarrow>
      fst (SplitIntoFLACPiece_call self env r) =
        (if e = KeyboardInterrupt then Inr None else Inl e))"
  by (cases r)
     (auto simp: SplitIntoFLACPiece_call_def SplitIntoFLACPiece_try_def isinstance_def Let_def
        split: sum.splits prod.splits)

theorem extractor_swallows_only_interrupt_witness:
  "fst (SplitIntoFLACPiece_call (SplitIntoFLACPiece_init ''a.mp4'' None None None)
          (demo_surroundings (Inl KeyboardInterrupt)) (1000, 2000)) = Inr None \<and>
   fst (SplitIntoFLACPiece_call (SplitIntoFLACPiece_init ''a.mp4'' None None None)
          (demo_surroundings (Inl CalledProcessError)) (1000, 2000)) = Inl CalledProcessError \<and>
   fst (SplitIntoFLACPiece_call (SplitIntoFLACPiece_init ''a.mp4'' None None None)
          (demo_surroundings (Inr [])) (1000, 2000)) = Inr (Some ''fLaC'')"
proof -
  let ?self = "SplitIntoFLACPiece_init ''a.mp4'' None None None"
  have a: "fst (SplitIntoFLACPiece_try ?self (demo_surroundings (Inl KeyboardInterrupt)) (1000, 2000))
             = Inl KeyboardInterrupt"
    by (simp add: SplitIntoFLACPiece_try_def demo_surroundings_def Let_def)
  have b: "fst (SplitIntoFLACPiece_try ?self (demo_surroundings (Inl CalledProcessError)) (1000, 2000))
             = Inl CalledProcessError"
    by (simp add: SplitIntoFLACPiece_try_def demo_surroundings_def Let_def)
  have c: "fst (SplitIntoFLACPiece_try ?self (demo_surroundings (Inr [])) (1000, 2000))
             = Inr ''fLaC''"
    by (simp add: SplitIntoFLACPiece_try_def demo_surroundings_def Let_def)
  show ?thesis
    using a b c
      extractor_swallows_only_interrupt
        [of ?self "demo_surroundings (Inl KeyboardInterrupt)" "(1000, 2000)"]
      extractor_swallows_only_interrupt
        [of ?self "demo_surroundings (Inl CalledProcessError)" "(1000, 2000)"]
      extractor_swallows_only_interrupt
        [of ?self "demo_surroundings (Inr [])" "(1000, 2000)"]
    by simp
qed

section \<open>Properties of the prober\<close>

lemma findall_example:
  "findall_digits ''30000/1001\<newline>'' = [''30000'', ''1001'']"
  by code_simp

lemma findall_garbage: "findall_digits ''garbage'' = []"
  by code_simp

text \<open>
  C1. Whenever the prober's invocation succeeds and its decoded output holds exactly two
  runs of digits, \<open>ffprobe_get_fps\<close> raises TypeError instead of returning the quotient:
  \<open>num_list\<close> is a map object, \<open>list(num_list)\<close> has drawn it empty, and
  \<open>num_list[0]\<close> subscripts it. The exception is not among those the function catches.
\<close>

theorem ffprobe_two_integers_raise:
  assumes "check_output_outcome env (ffprobe_command video_file) (os_name env = ''nt'') = Inr out"
    and "decode_utf8 G out = Some text"
    and "length (findall_digits text) = 2"
  shows "ffprobe_get_fps G env video_file input_m = (Inl TypeError, 0)"
  using assms
  by (simp add: ffprobe_get_fps_def ffprobe_try_def py_map_def py_list_def py_getitem_def
      isinstance_def Let_def)

theorem ffprobe_two_integers_raise_witness:
  "check_output_outcome (demo_surroundings (Inr ''30000/1001\<newline>''))
       (ffprobe_command ''v.mp4'')
       (os_name (demo_surroundings (Inr ''30000/1001\<newline>'')) = ''nt'')
     = Inr ''30000/1001\<newline>'' \<and>
   decode_utf8 demo_given ''30000/1001\<newline>'' = Some ''30000/1001\<newline>'' \<and>
   length (findall_digits ''30000/1001\<newline>'') = 2 \<and>
   ffprobe_get_fps demo_given (demo_surroundings (Inr ''30000/1001\<newline>''))
       ''v.mp4'' None = (Inl TypeError, 0)"
proof -
  let ?out = "''30000/1001\<newline>''"
  let ?env = "demo_surroundings (Inr ?out)"
  have a: "check_output_outcome ?env (ffprobe_command ''v.mp4'') (os_name ?env = ''nt'') = Inr ?out"
    by (simp add: demo_surroundings_def)
  have b: "decode_utf8 demo_given ?out = Some ?out"
    by (simp add: demo_given_def ascii_decode_def)
  have c: "length (findall_digits ?out) = 2"
    by (simp add: findall_example del: findall_digits.simps)
  from a b c ffprobe_two_integers_raise [OF a b c, of None] show ?thesis by simp
qed

text \<open>
  C6, as stated, fails where the prober cannot be started: \<open>check_output\<close> then raises
  FileNotFoundError, which the handler for CalledProcessError and ValueError lets through.
\<close>

theorem ffprobe_start_failure_propagates:
  "fst (ffprobe_get_fps demo_given (demo_surroundings (Inl FileNotFoundError)) ''v.mp4'' None)
     = Inl FileNotFoundError"
  by (simp add: ffprobe_get_fps_def ffprobe_try_def demo_surroundings_def isinstance_def Let_def)

text \<open>
  C6, amended. When the prober's invocation raises CalledProcessError (it exited with a
  non-zero status), or its output cannot be decoded or does not hold exactly two integers,
  the function raises nothing of its own. Without an interactive capability it returns 0.0
  and does not prompt. With a capability it prompts exactly once and returns the entry as
  \<open>float\<close> parses it, unless \<open>float\<close> rejects the entry or the value is \<open><= 0.0\<close>, in
  which cases it returns 0.0; so a positive number and \<open>inf\<close> are returned, and so is
  \<open>nan\<close>, which fails the comparison. An error the capability raises is passed on.
  When the invocation raises any other exception, such as the one for a prober that cannot
  be started, that exception is passed on and no prompt is made.
\<close>

theorem ffprobe_fallback:
  "(prober_gave_no_rate G env video_file \<longrightarrow>
      ffprobe_get_fps G env video_file None = (Inr (Finite 0), 0) \<and>
      ffprobe_get_fps G env video_file (Some (entry # rest)) =
        (Inr (case float_of_str G entry of
                None \<Rightarrow> Finite 0
              | Some (Finite r) \<Rightarrow> Finite (if r \<le> 0 then 0 else r)
              | Some PosInf \<Rightarrow> PosInf
              | Some NegInf \<Rightarrow> Finite 0
              | Some NaN \<Rightarrow> NaN), 1) \<and>
      ffprobe_get_fps G env video_file (Some []) = (Inl EOFError, 1)) \<and>
   (\<forall>e. check_output_outcome env (ffprobe_command video_file) (os_name env = ''nt'') = Inl e \<longrightarrow>
        \<not> caught e \<longrightarrow> ffprobe_get_fps G env video_file input_m = (Inl e, 0))"
  by (auto simp: prober_gave_no_rate_def caught_def ffprobe_get_fps_def ffprobe_try_def
      py_map_def py_list_def isinstance_def le_zero_def Let_def
      split: sum.splits option.splits pyfloat.splits)

theorem ffprobe_fallback_witness:
  "prober_gave_no_rate demo_given (demo_surroundings (Inr ''garbage'')) ''v.mp4'' \<and>
   ffprobe_get_fps demo_given (demo_surroundings (Inr ''garbage'')) ''v.mp4'' None
     = (Inr (Finite 0), 0) \<and>
   ffprobe_get_fps demo_given (demo_surroundings (Inr ''garbage'')) ''v.mp4'' (Some [''25''])
     = (Inr (Finite 25), 1) \<and>
   ffprobe_get_fps demo_given (demo_surroundings (Inr ''garbage'')) ''v.mp4'' (Some [''-5''])
     = (Inr (Finite 0), 1) \<and>
   ffprobe_get_fps demo_given (demo_surroundings (Inr ''garbage'')) ''v.mp4'' (Some [''abc''])
     = (Inr (Finite 0), 1) \<and>
   ffprobe_get_fps demo_given (demo_surroundings (Inr ''garbage'')) ''v.mp4'' (Some [''nan''])
     = (Inr NaN, 1) \<and>
   check_output_outcome (demo_surroundings (Inl OSError)) (ffprobe_command ''v.mp4'')
       (os_name (demo_surroundings (Inl OSError)) = ''nt'') = Inl OSError \<and>
   \<not> caught OSError \<and>
   ffprobe_get_fps demo_given (demo_surroundings (Inl OSError)) ''v.mp4'' (Some [''25''])
     = (Inl OSError, 0)"
proof -
  let ?env = "demo_surroundings (Inr ''garbage'')"
  let ?bad = "demo_surroundings (Inl OSError)"
  have h: "prober_gave_no_rate demo_given ?env ''v.mp4''"
    by (simp add: prober_gave_no_rate_def demo_surroundings_def demo_given_def ascii_decode_def
        findall_garbage del: findall_digits.simps)
  have f1: "float_of_str demo_given ''25'' = Some (Finite 25)"
    by (simp add: demo_given_def plain_float_def is_digit_def int_of_digits_def)
  have f2: "float_of_str demo_given ''-5'' = Some (Finite (- 5))"
    by (simp add: demo_given_def plain_float_def is_digit_def int_of_digits_def)
  have f3: "float_of_str demo_given ''abc'' = None"
    by (simp add: demo_given_def plain_float_def is_digit_def)
  have f4: "float_of_str demo_given ''nan'' = Some NaN"
    by (simp add: demo_given_def plain_float_def)
  have g: "check_output_outcome ?bad (ffprobe_command ''v.mp4'') (os_name ?bad = ''nt'')
             = Inl OSError"
    by (simp add: demo_surroundings_def)
  have c: "\<not> caught OSError" by (simp add: caught_def isinstance_def)
  show ?thesis
    using h f1 f2 f3 f4 g c
      ffprobe_fallback [of demo_given ?env "''v.mp4''" "''25''" "[]" None]
      ffprobe_fallback [of demo_given ?env "''v.mp4''" "''-5''" "[]" None]
      ffprobe_fallback [of demo_given ?env "''v.mp4''" "''abc''" "[]" None]
      ffprobe_fallback [of demo_given ?env "''v.mp4''" "''nan''" "[]" None]
      ffprobe_fallback [of demo_given ?bad "''v.mp4''" "''25''" "[]" "Some [''25'']"]
    by simp
qed

section \<open>Properties of the pipeline runner\<close>

subsection \<open>What each step adds to the trace\<close>

lemma fresh_temp_cases:
  assumes "fresh_temp w = (r, w1)"
  shows "(\<exists>e. r = Inl e \<and> trace w1 = trace w \<and> files w1 = files w) \<or>
         (\<exists>n. r = Inr (n @ ''.flac'') \<and> n \<in> set (temp_names w) \<and>
              trace w1 = trace w @ [Created (n @ ''.flac''), Removed (n @ ''.flac'')] \<and>
              n @ ''.flac'' \<notin> set (files w1) \<and>
              set (temp_names w1) \<subseteq> set (temp_names w))"
proof (cases "dropWhile (\<lambda>n. isfile (files w) (n @ ''.flac'')) (temp_names w)")
  case Nil
  with assms show ?thesis
    by (auto simp: fresh_temp_def NamedTemporaryFile_def)
next
  case (Cons n rest)
  have "set (n # rest) \<subseteq> set (temp_names w)"
    using set_dropWhileD [of _ "\<lambda>n. isfile (files w) (n @ ''.flac'')" "temp_names w"] Cons
    by auto
  with assms Cons show ?thesis
    by (auto simp: fresh_temp_def NamedTemporaryFile_def os_remove_def isfile_def)
qed

lemma run_stage_cases:
  assumes "run_stage G ov i tpl a b w = (r, w1)"
  shows "temp_names w1 = temp_names w \<and>
         ((\<exists>e. format_in_out G tpl a b = Inl e \<and> r = Inl e \<and> w1 = w) \<or>
          (\<exists>c0. format_in_out G tpl a b = Inr c0 \<and>
                trace w1 = trace w @
                  [Stage i a b (case ov of None \<Rightarrow> c0 | Some t \<Rightarrow> splice_override t c0) False (files w)]))"
  using assms
  by (auto simp: run_stage_def Let_def split: sum.splits prod.splits)

lemma os_remove_cases:
  assumes "os_remove p w = (r, w1)"
  shows "temp_names w1 = temp_names w \<and>
         ((r = Inl FileNotFoundError \<and> w1 = w) \<or>
          (r = Inr () \<and> p \<in> set (files w) \<and> trace w1 = trace w @ [Removed p] \<and>
           files w1 = removeAll p (files w)))"
  using assms by (auto simp: os_remove_def isfile_def split: if_splits)

lemma prompt_loop_cases:
  assumes "prompt_loop out answers w = (r, answers', w1)"
  shows "files w1 = files w \<and> temp_names w1 = temp_names w \<and>
         (\<exists>ps. trace w1 = trace w @ map Prompted ps)"
  using assms
proof (induction out answers w rule: prompt_loop.induct)
  case (1 out w)
  then show ?case
    by (auto split: if_splits intro: exI [of _ "[out]"] exI [of _ "[]"])
next
  case (2 out answer rest w)
  show ?case
  proof (cases "isfile (files w) out")
    case True
    with 2 obtain ps where
      "files w1 = files w" "temp_names w1 = temp_names w"
      "trace w1 = (trace w @ [Prompted out]) @ map Prompted ps"
      by auto
    then show ?thesis by (auto intro: exI [of _ "out # ps"])
  next
    case False
    with 2 show ?thesis by (auto intro: exI [of _ "[]"])
  qed
qed

lemma choose_output_cases:
  assumes "choose_output input_m out w = (r, input_m', w1)"
  shows "temp_names w1 = temp_names w \<and>
         (\<exists>es. trace w1 = trace w @ es \<and> (\<forall>ev\<in>set es. \<forall>i a b c sh fs. ev \<noteq> Stage i a b c sh fs))"
proof (cases input_m)
  case None
  with assms show ?thesis
    by (auto simp: choose_output_def os_remove_def isfile_def split: if_splits)
next
  case (Some answers)
  with assms obtain r0 a0 where p: "prompt_loop out answers w = (r0, a0, w1)"
    by (auto simp: choose_output_def split: prod.splits)
  from prompt_loop_cases [OF p] obtain ps where
    "temp_names w1 = temp_names w" "trace w1 = trace w @ map Prompted ps" by auto
  then show ?thesis by (auto intro!: exI [of _ "map Prompted ps"])
qed

lemma str_replace_short: "length s < length old \<Longrightarrow> str_replace old new s = s"
  by (induction s) auto

lemma str_replace_whole:
  assumes "length s \<le> length old" and "old \<noteq> []"
  shows "str_replace old new s = (if s = old then new else s)"
proof (cases s)
  case Nil
  with assms show ?thesis by auto
next
  case (Cons c cs)
  with assms have t: "take (length old) (c # cs) = c # cs" by simp
  from Cons assms have short: "str_replace old new cs = cs"
    by (simp add: str_replace_short)
  from Cons assms have d: "drop (length old) (c # cs) = []" by simp
  show ?thesis
    unfolding Cons str_replace.simps t d short using assms by simp
qed

lemma splice_closed:
  "splice_override tool c = (if take 7 c = ''ffmpeg '' then tool @ '' '' @ drop 7 c else c)"
proof -
  have "str_replace ''ffmpeg '' (tool @ '' '') (take 7 c) =
          (if take 7 c = ''ffmpeg '' then tool @ '' '' else take 7 c)"
    by (rule str_replace_whole) simp_all
  then show ?thesis by (simp add: splice_override_def)
qed

lemma keep_loop_stages:
  assumes "keep_loop G tool stem i cmds input_m ol w = (r, w')" and "i = Suc (length pre)"
  shows "\<exists>es. trace w' = trace w @ es \<and> (\<forall>ev\<in>set es. stage_as_coded G (pre @ cmds) tool True ev)"
  using assms
proof (induction cmds arbitrary: i input_m ol w pre)
  case Nil
  then show ?case by simp
next
  case (Cons tpl cmds)
  let ?all = "pre @ tpl # cmds"
  obtain r1 im1 w1 where
    c: "choose_output input_m (stem @ ''_temp_'' @ str_nat i @ ''.flac'') w = (r1, im1, w1)"
    by (metis prod_cases3)
  from choose_output_cases [OF c] obtain es1 where
    es1: "trace w1 = trace w @ es1" "\<forall>ev\<in>set es1. stage_as_coded G ?all tool True ev"
    by (fastforce simp: stage_as_coded_def split: event.splits)
  show ?case
  proof (cases r1)
    case (Inl e)
    with Cons.prems c es1 show ?thesis by auto
  next
    case (Inr out)
    obtain r2 w2 where s: "run_stage G (Some tool) i tpl (last ol) out w1 = (r2, w2)"
      by (cases "run_stage G (Some tool) i tpl (last ol) out w1")
    from run_stage_cases [OF s] Cons.prems(2) obtain es2 where
      es2: "trace w2 = trace w1 @ es2" "\<forall>ev\<in>set es2. stage_as_coded G ?all tool True ev"
      by (auto simp: stage_as_coded_def)
    show ?thesis
    proof (cases r2)
      case (Inl e)
      with Cons.prems c Inr s es1 es2 show ?thesis by auto
    next
      case (Inr u)
      with Cons.prems c \<open>r1 = Inr out\<close> s
      have "keep_loop G tool stem (Suc i) cmds im1 (ol @ [out]) w2 = (r, w')" by simp
      moreover have "Suc i = Suc (length (pre @ [tpl]))" using Cons.prems(2) by simp
      ultimately obtain es3 where
        "trace w' = trace w2 @ es3"
        "\<forall>ev\<in>set es3. stage_as_coded G ((pre @ [tpl]) @ cmds) tool True ev"
        using Cons.IH by blast
      with es1 es2 show ?thesis by auto
    qed
  qed
qed

lemma scratch_loop_stages:
  assumes "scratch_loop G tool i cmds ol w = (r, w')" and "i = Suc (length pre)" and "2 \<le> i"
  shows "\<exists>es. trace w' = trace w @ es \<and> (\<forall>ev\<in>set es. stage_as_coded G (pre @ cmds) tool False ev)"
  using assms
proof (induction cmds arbitrary: i ol w pre)
  case Nil
  then show ?case by simp
next
  case (Cons tpl cmds)
  let ?all = "pre @ tpl # cmds"
  obtain r1 w1 where f: "fresh_temp w = (r1, w1)" by (cases "fresh_temp w")
  from fresh_temp_cases [OF f] obtain es1 where
    es1: "trace w1 = trace w @ es1" "\<forall>ev\<in>set es1. stage_as_coded G ?all tool False ev"
    by (fastforce simp: stage_as_coded_def)
  show ?case
  proof (cases r1)
    case (Inl e)
    with Cons.prems f es1 show ?thesis by auto
  next
    case (Inr t)
    obtain r2 w2 where s: "run_stage G (Some tool) i tpl (last ol) t w1 = (r2, w2)"
      by (cases "run_stage G (Some tool) i tpl (last ol) t w1")
    from run_stage_cases [OF s] Cons.prems(2,3) obtain es2 where
      es2: "trace w2 = trace w1 @ es2" "\<forall>ev\<in>set es2. stage_as_coded G ?all tool False ev"
      by (auto simp: stage_as_coded_def)
    show ?thesis
    proof (cases r2)
      case (Inl e)
      with Cons.prems f Inr s es1 es2 show ?thesis by auto
    next
      case u: (Inr u)
      obtain r3 w3 where d: "os_remove (last ol) w2 = (r3, w3)" by (cases "os_remove (last ol) w2")
      from os_remove_cases [OF d] obtain es3 where
        es3: "trace w3 = trace w2 @ es3" "\<forall>ev\<in>set es3. stage_as_coded G ?all tool False ev"
        by (auto simp: stage_as_coded_def)
      show ?thesis
      proof (cases r3)
        case (Inl e)
        with Cons.prems f \<open>r1 = Inr t\<close> s u d es1 es2 es3 show ?thesis by auto
      next
        case (Inr u')
        with Cons.prems f \<open>r1 = Inr t\<close> s u d
        have "scratch_loop G tool (Suc i) cmds (ol @ [t]) w3 = (r, w')" by simp
        moreover have "Suc i = Suc (length (pre @ [tpl]))" using Cons.prems(2) by simp
        moreover have "2 \<le> Suc i" using Cons.prems(3) by simp
        ultimately obtain es4 where
          "trace w' = trace w3 @ es4"
          "\<forall>ev\<in>set es4. stage_as_coded G ((pre @ [tpl]) @ cmds) tool False ev"
          using Cons.IH by blast
        with es1 es2 es3 show ?thesis by auto
      qed
    qed
  qed
qed

lemma audio_pre_prcs_stages:
  assumes "audio_pre_prcs G w filename is_keep cmds input_m tool = (r, w')"
  shows "\<exists>es. trace w' = trace w @ es \<and>
              (\<forall>ev\<in>set es. stage_as_coded G (stages G cmds) tool is_keep ev)"
proof (cases is_keep)
  case True
  with assms obtain r0 where
    "keep_loop G tool (fst (splitext filename)) 1 (stages G cmds) input_m [filename] w = (r0, w')"
    by (auto simp: audio_pre_prcs_def stages_def Let_def split: prod.splits sum.splits)
  from keep_loop_stages [OF this, of "[]"] True show ?thesis by simp
next
  case False
  obtain r1 w1 where f: "fresh_temp w = (r1, w1)" by (cases "fresh_temp w")
  from fresh_temp_cases [OF f] obtain es1 where
    es1: "trace w1 = trace w @ es1"
         "\<forall>ev\<in>set es1. stage_as_coded G (stages G cmds) tool False ev"
    by (fastforce simp: stage_as_coded_def)
  show ?thesis
  proof (cases r1)
    case (Inl e)
    with assms False f es1 show ?thesis by (auto simp: audio_pre_prcs_def Let_def)
  next
    case (Inr t)
    show ?thesis
    proof (cases "stages G cmds")
      case Nil
      with assms False f Inr es1 show ?thesis
        by (auto simp: audio_pre_prcs_def stages_def Let_def)
    next
      case (Cons tpl rest)
      obtain r2 w2 where s: "run_stage G None 1 tpl filename t w1 = (r2, w2)"
        by (cases "run_stage G None 1 tpl filename t w1")
      from run_stage_cases [OF s] Cons obtain es2 where
        es2: "trace w2 = trace w1 @ es2"
             "\<forall>ev\<in>set es2. stage_as_coded G (stages G cmds) tool False ev"
        by (auto simp: stage_as_coded_def)
      show ?thesis
      proof (cases r2)
        case (Inl e)
        with assms False f \<open>r1 = Inr t\<close> Cons s es1 es2 show ?thesis
          by (auto simp: audio_pre_prcs_def stages_def Let_def)
      next
        case u: (Inr u)
        with assms False f \<open>r1 = Inr t\<close> Cons s obtain r3 where
          "scratch_loop G tool 2 rest [filename, t] w2 = (r3, w')"
          by (auto simp: audio_pre_prcs_def stages_def Let_def split: prod.splits sum.splits)
        from scratch_loop_stages [OF this, of "[tpl]"] Cons obtain es3 where
          "trace w' = trace w2 @ es3"
          "\<forall>ev\<in>set es3. stage_as_coded G (stages G cmds) tool False ev"
          by auto
        with es1 es2 False show ?thesis by auto
      qed
    qed
  qed
qed

lemma demo_keep_two_run:
  "fst demo_keep_two = Inr ''a_temp_2.flac'' \<and>
   files (snd demo_keep_two) = [''a_temp_2.flac'', ''a_temp_1.flac'', ''a.wav''] \<and>
   trace (snd demo_keep_two) =
     [Stage 1 ''a.wav'' ''a_temp_1.flac'' ''avconv -i a.wav a_temp_1.flac'' False [''a.wav''],
      Stage 2 ''a_temp_1.flac'' ''a_temp_2.flac'' ''avconv -y -i a_temp_1.flac a_temp_2.flac''
        False [''a_temp_1.flac'', ''a.wav'']]"
  by code_simp


lemma demo_scratch_two_run:
  "fst demo_scratch_two = Inr ''/tmp/tmp2.flac'' \<and>
   files (snd demo_scratch_two) = [''/tmp/tmp2.flac'', ''a.wav''] \<and>
   trace (snd demo_scratch_two) =
     [Created ''/tmp/tmp1.flac'', Removed ''/tmp/tmp1.flac'',
      Stage 1 ''a.wav'' ''/tmp/tmp1.flac'' ''ffmpeg -i a.wav /tmp/tmp1.flac'' False
        [''a.wav''],
      Created ''/tmp/tmp2.flac'', Removed ''/tmp/tmp2.flac'',
      Stage 2 ''/tmp/tmp1.flac'' ''/tmp/tmp2.flac''
        ''avconv -y -i /tmp/tmp1.flac /tmp/tmp2.flac'' False
        [''/tmp/tmp1.flac'', ''a.wav''],
      Removed ''/tmp/tmp1.flac'']"
  by code_simp

lemma events_of_run_append: "trace w' = trace w @ es \<Longrightarrow> events_of_run w w' = es"
  by (simp add: events_of_run_def)

lemma events_of_demo [simp]: "events_of_run (demo_world fs) w' = trace w'"
  by (simp add: events_of_run_def demo_world_def)

subsection \<open>The tool-name override\<close>

text \<open>
  C2, as stated, fails in keep mode: with the override \<open>avconv\<close> the second stage, whose
  template formats to \<open>ffmpeg -y -i a_temp_1.flac a_temp_2.flac\<close>, is run as
  \<open>avconv -y -i a_temp_1.flac a_temp_2.flac\<close>.
\<close>

theorem keep_mode_splices_every_stage:
  "trace (snd (audio_pre_prcs demo_given (demo_world [''a.wav'']) ''a.wav'' True
      [''ffmpeg -i {in_} {out_}'', ''ffmpeg -y -i {in_} {out_}''] None ''avconv'')) =
     [Stage 1 ''a.wav'' ''a_temp_1.flac'' ''avconv -i a.wav a_temp_1.flac'' False [''a.wav''],
      Stage 2 ''a_temp_1.flac'' ''a_temp_2.flac'' ''avconv -y -i a_temp_1.flac a_temp_2.flac''
        False [''a_temp_1.flac'', ''a.wav'']] \<and>
   format_in_out demo_given ''ffmpeg -y -i {in_} {out_}'' ''a_temp_1.flac'' ''a_temp_2.flac'' =
     Inr ''ffmpeg -y -i a_temp_1.flac a_temp_2.flac''"
  by code_simp

text \<open>
  C2, amended. In keep mode at every stage, and in scratch mode at every stage after the
  first, the command line run is the stage's template formatted with the stage's input and
  output path, with the tool name and a space in place of a leading \<open>ffmpeg\<close> and
  space. (The first stage of scratch mode is left out of the statement.)
\<close>

theorem override_spliced_by_stage:
  "list_all (override_spliced G (stages G cmds) tool is_keep)
     (events_of_run w (snd (audio_pre_prcs G w filename is_keep cmds input_m tool)))"
proof -
  obtain r w' where run: "audio_pre_prcs G w filename is_keep cmds input_m tool = (r, w')"
    by (cases "audio_pre_prcs G w filename is_keep cmds input_m tool")
  from audio_pre_prcs_stages [OF run] obtain es where
    es: "trace w' = trace w @ es"
        "\<forall>ev\<in>set es. stage_as_coded G (stages G cmds) tool is_keep ev" by blast
  have "override_spliced G (stages G cmds) tool is_keep ev" if "ev \<in> set es" for ev
  proof -
    from es(2) that have "stage_as_coded G (stages G cmds) tool is_keep ev" by blast
    then show ?thesis
      by (cases ev) (auto simp: stage_as_coded_def override_spliced_def splice_closed
          split: sum.splits)
  qed
  with es(1) run show ?thesis
    by (simp add: events_of_run_append list_all_iff)
qed

theorem override_spliced_by_stage_witness:
  "events_of_run (demo_world [''a.wav'']) (snd demo_scratch_two) =
     [Created ''/tmp/tmp1.flac'', Removed ''/tmp/tmp1.flac'',
      Stage 1 ''a.wav'' ''/tmp/tmp1.flac'' ''ffmpeg -i a.wav /tmp/tmp1.flac'' False
        [''a.wav''],
      Created ''/tmp/tmp2.flac'', Removed ''/tmp/tmp2.flac'',
      Stage 2 ''/tmp/tmp1.flac'' ''/tmp/tmp2.flac''
        ''avconv -y -i /tmp/tmp1.flac /tmp/tmp2.flac'' False
        [''/tmp/tmp1.flac'', ''a.wav''],
      Removed ''/tmp/tmp1.flac''] \<and>
   list_all (override_spliced demo_given
       [''ffmpeg -i {in_} {out_}'', ''ffmpeg -y -i {in_} {out_}''] ''avconv'' False)
     (events_of_run (demo_world [''a.wav'']) (snd demo_scratch_two))"
  using override_spliced_by_stage [of demo_given
      "[''ffmpeg -i {in_} {out_}'', ''ffmpeg -y -i {in_} {out_}'']" "''avconv''" False
      "demo_world [''a.wav'']" "''a.wav''" None]
    demo_scratch_two_run
  by (simp add: demo_scratch_two_def stages_def)

subsection \<open>The shell\<close>

text \<open>
  C3, as stated, fails: the stage of this keep-mode run is invoked with \<open>shell=False\<close>.
\<close>

theorem stage_commands_bypass_shell:
  "trace (snd (audio_pre_prcs demo_given (demo_world [''a.wav'', ''a_temp_1.flac'']) ''a.wav''
      True [] None ''ffmpeg'')) =
     [Removed ''a_temp_1.flac'',
      Stage 1 ''a.wav'' ''a_temp_1.flac'' ''ffmpeg -i a.wav a_temp_1.flac'' False [''a.wav'']]"
  by code_simp

text \<open>
  C3, amended. Every stage command of \<open>audio_pre_prcs\<close>, in keep mode and in scratch
  mode, is invoked with \<open>shell=False\<close>, that is, never through the shell.
\<close>

theorem stages_run_without_shell:
  "list_all no_shell
     (events_of_run w (snd (audio_pre_prcs G w filename is_keep cmds input_m tool)))"
proof -
  obtain r w' where run: "audio_pre_prcs G w filename is_keep cmds input_m tool = (r, w')"
    by (cases "audio_pre_prcs G w filename is_keep cmds input_m tool")
  from audio_pre_prcs_stages [OF run] obtain es where
    es: "trace w' = trace w @ es"
        "\<forall>ev\<in>set es. stage_as_coded G (stages G cmds) tool is_keep ev" by blast
  have "no_shell ev" if "ev \<in> set es" for ev
  proof -
    from es(2) that have "stage_as_coded G (stages G cmds) tool is_keep ev" by blast
    then show ?thesis by (cases ev) (auto simp: stage_as_coded_def no_shell_def)
  qed
  with es(1) run show ?thesis
    by (simp add: events_of_run_append list_all_iff)
qed

theorem stages_run_without_shell_witness:
  "list_all no_shell (events_of_run (demo_world [''a.wav'']) (snd demo_keep_two)) \<and>
   events_of_run (demo_world [''a.wav'']) (snd demo_keep_two) =
     [Stage 1 ''a.wav'' ''a_temp_1.flac'' ''avconv -i a.wav a_temp_1.flac'' False [''a.wav''],
      Stage 2 ''a_temp_1.flac'' ''a_temp_2.flac'' ''avconv -y -i a_temp_1.flac a_temp_2.flac''
        False [''a_temp_1.flac'', ''a.wav'']]"
  using stages_run_without_shell [of "demo_world [''a.wav'']" demo_given "''a.wav''" True
      "[''ffmpeg -i {in_} {out_}'', ''ffmpeg -y -i {in_} {out_}'']" None "''avconv''"]
    demo_keep_two_run
  by (simp add: demo_keep_two_def)

subsection \<open>Scratch mode: the output path at the time a stage runs\<close>

lemma outputs_fresh_append:
  assumes "outputs_fresh xs" and "outputs_fresh ys"
  shows "outputs_fresh (xs @ ys)"
  unfolding outputs_fresh_def
proof (intro allI impI)
  fix k assume k: "k < length (xs @ ys)"
  show "case (xs @ ys) ! k of
          Stage j a b c sh fs \<Rightarrow>
            2 \<le> k \<and> (xs @ ys) ! (k - 2) = Created b \<and> (xs @ ys) ! (k - 1) = Removed b \<and>
            b \<notin> set fs
        | _ \<Rightarrow> True"
  proof (cases "k < length xs")
    case True
    with assms(1) have "case xs ! k of
          Stage j a b c sh fs \<Rightarrow>
            2 \<le> k \<and> xs ! (k - 2) = Created b \<and> xs ! (k - 1) = Removed b \<and> b \<notin> set fs
        | _ \<Rightarrow> True"
      by (simp add: outputs_fresh_def)
    with True show ?thesis
      by (auto simp: nth_append split: event.splits)
  next
    case False
    define m where "m = k - length xs"
    from False k have m: "m < length ys" "k = length xs + m" by (auto simp: m_def)
    with assms(2) have "case ys ! m of
          Stage j a b c sh fs \<Rightarrow>
            2 \<le> m \<and> ys ! (m - 2) = Created b \<and> ys ! (m - 1) = Removed b \<and> b \<notin> set fs
        | _ \<Rightarrow> True"
      by (simp add: outputs_fresh_def)
    with m show ?thesis
      by (auto simp: nth_append split: event.splits)
  qed
qed

lemma outputs_fresh_simps:
  "outputs_fresh []"
  "outputs_fresh [Created t]"
  "outputs_fresh [Removed t]"
  "outputs_fresh [Created t, Removed t]"
  "b \<notin> set fs \<Longrightarrow> outputs_fresh [Created b, Removed b, Stage j a b c sh fs]"
  by (auto simp: outputs_fresh_def less_Suc_eq nth_Cons' split: event.splits)

lemma scratch_step_fresh:
  assumes f: "fresh_temp w = (Inr t, w1)"
    and s: "run_stage G ov i tpl prev t w1 = (r2, w2)"
  shows "\<exists>es. trace w2 = trace w @ es \<and> outputs_fresh es"
proof -
  from fresh_temp_cases [OF f] have
    t1: "trace w1 = trace w @ [Created t, Removed t]" and nf: "t \<notin> set (files w1)"
    by auto
  from run_stage_cases [OF s] consider
    "trace w2 = trace w1" |
    c0 where "trace w2 = trace w1 @
       [Stage i prev t (case ov of None \<Rightarrow> c0 | Some x \<Rightarrow> splice_override x c0) False (files w1)]"
    by auto
  then show ?thesis
  proof cases
    case 1
    with t1 show ?thesis by (auto simp: outputs_fresh_simps)
  next
    case 2
    with t1 nf show ?thesis by (auto simp: outputs_fresh_simps)
  qed
qed

lemma scratch_loop_fresh:
  assumes "scratch_loop G tool i cmds ol w = (r, w')"
  shows "\<exists>es. trace w' = trace w @ es \<and> outputs_fresh es"
  using assms
proof (induction cmds arbitrary: i ol w)
  case Nil
  then show ?case by (simp add: outputs_fresh_simps)
next
  case (Cons tpl cmds)
  obtain r1 w1 where f: "fresh_temp w = (r1, w1)" by (cases "fresh_temp w")
  show ?case
  proof (cases r1)
    case (Inl e)
    with Cons.prems f fresh_temp_cases [OF f] show ?thesis
      by (auto simp: outputs_fresh_simps)
  next
    case (Inr t)
    obtain r2 w2 where s: "run_stage G (Some tool) i tpl (last ol) t w1 = (r2, w2)"
      by (cases "run_stage G (Some tool) i tpl (last ol) t w1")
    from scratch_step_fresh [OF f [unfolded Inr] s] obtain es2 where
      es2: "trace w2 = trace w @ es2" "outputs_fresh es2" by blast
    show ?thesis
    proof (cases r2)
      case (Inl e)
      with Cons.prems f Inr s es2 show ?thesis by auto
    next
      case u: (Inr u)
      obtain r3 w3 where d: "os_remove (last ol) w2 = (r3, w3)" by (cases "os_remove (last ol) w2")
      from os_remove_cases [OF d] obtain es3 where
        es3: "trace w3 = trace w2 @ es3" "outputs_fresh es3"
        by (auto simp: outputs_fresh_simps)
      show ?thesis
      proof (cases r3)
        case (Inl e)
        with Cons.prems f \<open>r1 = Inr t\<close> s u d es2 es3 show ?thesis
          by (auto intro: outputs_fresh_append)
      next
        case (Inr u')
        with Cons.prems f \<open>r1 = Inr t\<close> s u d
        have "scratch_loop G tool (Suc i) cmds (ol @ [t]) w3 = (r, w')" by simp
        from Cons.IH [OF this] obtain es4 where
          "trace w' = trace w3 @ es4" "outputs_fresh es4" by blast
        with es2 es3 have "trace w' = trace w @ (es2 @ es3 @ es4)"
          "outputs_fresh (es2 @ es3 @ es4)"
          by (auto intro: outputs_fresh_append)
        then show ?thesis by blast
      qed
    qed
  qed
qed

lemma audio_pre_prcs_scratch_fresh:
  assumes "audio_pre_prcs G w filename False cmds input_m tool = (r, w')"
  shows "\<exists>es. trace w' = trace w @ es \<and> outputs_fresh es"
proof -
  obtain r1 w1 where f: "fresh_temp w = (r1, w1)" by (cases "fresh_temp w")
  show ?thesis
  proof (cases r1)
    case (Inl e)
    with assms f fresh_temp_cases [OF f] show ?thesis
      by (auto simp: audio_pre_prcs_def Let_def outputs_fresh_simps)
  next
    case (Inr t)
    from fresh_temp_cases [OF f] Inr have
      t1: "trace w1 = trace w @ [Created t, Removed t]" by auto
    show ?thesis
    proof (cases "if cmds = [] then DEFAULT_AUDIO_PRCS G else cmds")
      case Nil
      with assms f Inr t1 show ?thesis
        by (auto simp: audio_pre_prcs_def Let_def outputs_fresh_simps split: if_splits)
    next
      case (Cons tpl rest)
      obtain r2 w2 where s: "run_stage G None 1 tpl filename t w1 = (r2, w2)"
        by (cases "run_stage G None 1 tpl filename t w1")
      from scratch_step_fresh [OF f [unfolded Inr] s] obtain es2 where
        es2: "trace w2 = trace w @ es2" "outputs_fresh es2" by blast
      show ?thesis
      proof (cases r2)
        case (Inl e)
        with assms f \<open>r1 = Inr t\<close> Cons s es2 show ?thesis
          by (auto simp: audio_pre_prcs_def Let_def)
      next
        case u: (Inr u)
        with assms f \<open>r1 = Inr t\<close> Cons s obtain r3 where
          "scratch_loop G tool 2 rest [filename, t] w2 = (r3, w')"
          by (auto simp: audio_pre_prcs_def Let_def split: prod.splits sum.splits)
        from scratch_loop_fresh [OF this] obtain es3 where
          "trace w' = trace w2 @ es3" "outputs_fresh es3" by blast
        with es2 have "trace w' = trace w @ (es2 @ es3)" "outputs_fresh (es2 @ es3)"
          by (auto intro: outputs_fresh_append)
        then show ?thesis by blast
      qed
    qed
  qed
qed

text \<open>
  C10. In scratch mode every stage command is run right after its output file has been
  allocated by \<open>NamedTemporaryFile\<close> and removed again by \<open>os.remove\<close>, and at the
  moment it runs no file exists at its output path: the name is not kept reserved until
  the command writes to it. This holds for every run, also one that fails later.
\<close>

theorem scratch_outputs_removed_before_run:
  "outputs_fresh (events_of_run w (snd (audio_pre_prcs G w filename False cmds input_m tool)))"
proof -
  obtain r w' where run: "audio_pre_prcs G w filename False cmds input_m tool = (r, w')"
    by (cases "audio_pre_prcs G w filename False cmds input_m tool")
  from audio_pre_prcs_scratch_fresh [OF run] obtain es where
    "trace w' = trace w @ es" "outputs_fresh es" by blast
  with run show ?thesis by (simp add: events_of_run_append)
qed

theorem scratch_outputs_removed_before_run_witness:
  "events_of_run (demo_world [''a.wav'']) (snd demo_scratch_two) =
     [Created ''/tmp/tmp1.flac'', Removed ''/tmp/tmp1.flac'',
      Stage 1 ''a.wav'' ''/tmp/tmp1.flac'' ''ffmpeg -i a.wav /tmp/tmp1.flac'' False
        [''a.wav''],
      Created ''/tmp/tmp2.flac'', Removed ''/tmp/tmp2.flac'',
      Stage 2 ''/tmp/tmp1.flac'' ''/tmp/tmp2.flac''
        ''avconv -y -i /tmp/tmp1.flac /tmp/tmp2.flac'' False
        [''/tmp/tmp1.flac'', ''a.wav''],
      Removed ''/tmp/tmp1.flac''] \<and>
   outputs_fresh (events_of_run (demo_world [''a.wav'']) (snd demo_scratch_two))"
  using scratch_outputs_removed_before_run [of "demo_world [''a.wav'']" demo_given "''a.wav''"
      "[''ffmpeg -i {in_} {out_}'', ''ffmpeg -y -i {in_} {out_}'']" None "''avconv''"]
    demo_scratch_two_run
  by (simp add: demo_scratch_two_def)

subsection \<open>Scratch mode: the files of a successful run\<close>

lemma fresh_temp_success:
  assumes "fresh_temp w = (Inr t, w1)"
  shows "\<exists>n pre. temp_names w = pre @ n # temp_names w1 \<and> t = n @ ''.flac'' \<and>
           trace w1 = trace w @ [Created t, Removed t] \<and> t \<notin> set (files w1)"
proof (cases "dropWhile (\<lambda>n. isfile (files w) (n @ ''.flac'')) (temp_names w)")
  case Nil
  with assms show ?thesis by (auto simp: fresh_temp_def NamedTemporaryFile_def)
next
  case (Cons n rest)
  have "temp_names w = takeWhile (\<lambda>n. isfile (files w) (n @ ''.flac'')) (temp_names w) @ n # rest"
    using takeWhile_dropWhile_id [of "\<lambda>n. isfile (files w) (n @ ''.flac'')" "temp_names w"] Cons
    by simp
  moreover from assms Cons have "temp_names w1 = rest" "t = n @ ''.flac''"
    "trace w1 = trace w @ [Created t, Removed t]" "t \<notin> set (files w1)"
    by (auto simp: fresh_temp_def NamedTemporaryFile_def os_remove_def isfile_def)
  ultimately show ?thesis by blast
qed

lemma run_stage_success:
  assumes "run_stage G ov i tpl a b w = (Inr u, w1)"
  shows "temp_names w1 = temp_names w \<and> (\<exists>c. trace w1 = trace w @ [Stage i a b c False (files w)])"
  using run_stage_cases [OF assms] by auto

lemma os_remove_success:
  assumes "os_remove p w = (Inr u, w1)"
  shows "temp_names w1 = temp_names w \<and> trace w1 = trace w @ [Removed p]"
  using os_remove_cases [OF assms] by auto

lemma allocated_append: "allocated (xs @ ys) = allocated xs @ allocated ys"
  by (induction xs rule: allocated.induct) simp_all

lemma scratch_loop_acts:
  assumes "scratch_loop G tool i cmds ol w = (Inr ol', w')"
    and "ol \<noteq> []"
    and "2 \<le> i"
  shows "\<exists>es ts. trace w' = trace w @ es \<and> ol' = ol @ ts \<and> length ts = length cmds \<and>
           allocated es = ts \<and> map act_of es = scratch_acts i (last ol) ts \<and>
           set ts \<subseteq> set (upcoming_temps w) \<and>
           (distinct (temp_names w) \<longrightarrow> distinct ts)"
  using assms
proof (induction cmds arbitrary: i ol w)
  case Nil
  then show ?case by simp
next
  case (Cons tpl cmds)
  from Cons.prems(1) obtain t w1 where f: "fresh_temp w = (Inr t, w1)"
    by (auto split: prod.splits sum.splits)
  from Cons.prems(1) f obtain u w2 where
    s: "run_stage G (Some tool) i tpl (last ol) t w1 = (Inr u, w2)"
    by (auto split: prod.splits sum.splits)
  from Cons.prems(1) f s obtain u' w3 where
    d: "os_remove (last ol) w2 = (Inr u', w3)"
    by (auto split: prod.splits sum.splits)
  from Cons.prems(1) f s d have
    rec: "scratch_loop G tool (Suc i) cmds (ol @ [t]) w3 = (Inr ol', w')" by simp
  from fresh_temp_success [OF f] obtain n pre where
    n: "temp_names w = pre @ n # temp_names w1" "t = n @ ''.flac''"
       "trace w1 = trace w @ [Created t, Removed t]" by blast
  from run_stage_success [OF s] obtain c where
    c: "temp_names w2 = temp_names w1" "trace w2 = trace w1 @ [Stage i (last ol) t c False (files w1)]"
    by blast
  from os_remove_success [OF d] have
    r: "temp_names w3 = temp_names w2" "trace w3 = trace w2 @ [Removed (last ol)]" by auto
  have tn: "temp_names w3 = temp_names w1" using c r by simp
  have sub: "set (upcoming_temps w3) \<subseteq> set (upcoming_temps w)"
    using n(1) tn by (auto simp: upcoming_temps_def)
  have t_up: "t \<in> set (upcoming_temps w)" using n(1,2) by (auto simp: upcoming_temps_def)
  have i': "2 \<le> Suc i" using Cons.prems(3) by simp
  from Cons.IH [OF rec _ i'] obtain es' ts' where
    es': "trace w' = trace w3 @ es'" "ol' = (ol @ [t]) @ ts'" "length ts' = length cmds"
         "allocated es' = ts'" "map act_of es' = scratch_acts (Suc i) (last (ol @ [t])) ts'"
         "set ts' \<subseteq> set (upcoming_temps w3)"
         "distinct (temp_names w3) \<longrightarrow> distinct ts'"
    by auto
  let ?blk = "[Created t, Removed t, Stage i (last ol) t c False (files w1), Removed (last ol)]"
  have tr: "trace w' = trace w @ (?blk @ es')" using es'(1) n(3) c(2) r(2) by simp
  have ol: "ol' = ol @ (t # ts')" using es'(2) by simp
  have len: "length (t # ts') = length (tpl # cmds)" using es'(3) by simp
  have al: "allocated (?blk @ es') = t # ts'" using es'(4) by (simp add: allocated_append)
  have acts: "map act_of (?blk @ es') = scratch_acts i (last ol) (t # ts')"
    using es'(5) Cons.prems(3) by simp
  have subs: "set (t # ts') \<subseteq> set (upcoming_temps w)" using es'(6) sub t_up by auto
  have dist: "distinct (t # ts')" if dw: "distinct (temp_names w)"
  proof -
    have d3: "distinct (temp_names w3)" using dw n(1) tn by auto
    have "n \<notin> set (temp_names w3)" using dw n(1) tn by auto
    then have "t \<notin> set (upcoming_temps w3)" using n(2) by (auto simp: upcoming_temps_def)
    with es'(6,7) d3 show ?thesis by auto
  qed
  from tr ol len al acts subs dist show ?case by blast
qed

lemma deleted_at_once_scratch: "deleted_at_once (scratch_acts i prev ts) = ts"
  by (induction ts arbitrary: i prev) auto

lemma deleted_after_stage_loop:
  "2 \<le> i \<Longrightarrow> deleted_after_stage (scratch_acts i prev ts) = butlast (prev # ts)"
  by (induction ts arbitrary: i prev) auto

lemma deleted_after_stage_scratch:
  "deleted_after_stage (scratch_acts 1 prev ts) = butlast ts"
proof (cases ts)
  case Nil
  then show ?thesis by simp
next
  case (Cons t ts')
  show ?thesis
  proof (cases ts')
    case Nil
    with Cons show ?thesis by simp
  next
    case (Cons u ts'')
    have "deleted_after_stage (scratch_acts 2 t ts') = butlast (t # ts')"
      by (rule deleted_after_stage_loop) simp
    with Cons \<open>ts = t # ts'\<close> show ?thesis by (simp add: numeral_2_eq_2)
  qed
qed

lemma deletions_scratch_set:
  "set (deletions (scratch_acts i prev ts)) =
     set ts \<union> (if i \<noteq> 1 \<and> ts \<noteq> [] then {prev} else {})"
  by (induction ts arbitrary: i prev) auto

lemma deletions_scratch_length:
  "1 \<le> i \<Longrightarrow>
   length (deletions (scratch_acts i prev ts)) =
     (if i = 1 then 2 * length ts - 1 else 2 * length ts)"
  by (induction ts arbitrary: i prev) auto

lemma removed_is_deletion: "Removed p \<in> set es \<Longrightarrow> p \<in> set (deletions (map act_of es))"
  by (induction es rule: allocated.induct) auto

lemma demo_scratch_one_run:
  "fst demo_scratch_one = Inr ''/tmp/tmp1.flac'' \<and>
   trace (snd demo_scratch_one) =
     [Created ''/tmp/tmp1.flac'', Removed ''/tmp/tmp1.flac'',
      Stage 1 ''a.wav'' ''/tmp/tmp1.flac'' ''ffmpeg -i a.wav /tmp/tmp1.flac'' False [''a.wav'']]"
  by code_simp

text \<open>
  The sequence of \<open>scratch_acts\<close> is not that of a run that removes another file in place
  of a stage's output.
\<close>

lemma scratch_acts_refuses:
  "map act_of
     [Created ''t1'', Removed ''t1'', Stage 1 ''a.wav'' ''t1'' ''c'' False [],
      Created ''t2'', Removed ''t2'', Stage 2 ''t1'' ''t2'' ''c'' False [],
      Removed ''notes.txt'']
   \<noteq> scratch_acts 1 ''a.wav'' [''t1'', ''t2'']"
  by simp

text \<open>
  C4. A scratch-mode run over \<open>N\<close> stage templates that completes successfully has
  \<open>N \<ge> 1\<close> and does this and nothing else. For each stage in turn it creates a temporary
  file and removes it at once, which is how scratch mode allocates a fresh path, and runs
  the stage from the previous stage's output, or from the source at stage 1, to that path;
  after each stage from the second on it deletes the stage's input, which is the previous
  stage's output. So exactly \<open>N\<close> temporary output files are created, one for each stage,
  and of these exactly \<open>N - 1\<close> are deleted once they have been written and read, all but
  the final one, whose path is returned. No file but these is ever removed; with the
  removal of each of them when fresh there are \<open>2N - 1\<close> removals in all. The paths are
  all different when the allocator hands out no name twice, and the source is never
  deleted when the allocator does not hand out the source's own name.
\<close>

theorem scratch_mode_file_lifecycle:
  assumes "audio_pre_prcs G w filename False cmds input_m tool = (Inr out, w')"
  shows "1 \<le> length (stages G cmds) \<and>
         length (allocated (events_of_run w w')) = length (stages G cmds) \<and>
         map act_of (events_of_run w w') =
           scratch_acts 1 filename (allocated (events_of_run w w')) \<and>
         deleted_at_once (map act_of (events_of_run w w')) = allocated (events_of_run w w') \<and>
         deleted_after_stage (map act_of (events_of_run w w')) =
           butlast (allocated (events_of_run w w')) \<and>
         set (deletions (map act_of (events_of_run w w'))) = set (allocated (events_of_run w w')) \<and>
         length (deletions (map act_of (events_of_run w w'))) = 2 * length (stages G cmds) - 1 \<and>
         last (allocated (events_of_run w w')) = out \<and>
         (distinct (temp_names w) \<longrightarrow> distinct (allocated (events_of_run w w'))) \<and>
         (filename \<notin> set (upcoming_temps w) \<longrightarrow> Removed filename \<notin> set (events_of_run w w'))"
proof -
  from assms(1) obtain t w1 where f: "fresh_temp w = (Inr t, w1)"
    by (auto simp: audio_pre_prcs_def Let_def split: prod.splits sum.splits)
  from assms(1) f obtain tpl rest where st: "stages G cmds = tpl # rest"
    by (cases "stages G cmds") (auto simp: audio_pre_prcs_def stages_def Let_def)
  from assms(1) f st obtain u w2 where
    s: "run_stage G None 1 tpl filename t w1 = (Inr u, w2)"
    by (auto simp: audio_pre_prcs_def stages_def Let_def split: prod.splits sum.splits)
  from assms(1) f st s obtain ol' where
    rec: "scratch_loop G tool 2 rest [filename, t] w2 = (Inr ol', w')" and out: "out = last ol'"
    by (auto simp: audio_pre_prcs_def stages_def Let_def split: prod.splits sum.splits)
  from fresh_temp_success [OF f] obtain n pre where
    n: "temp_names w = pre @ n # temp_names w1" "t = n @ ''.flac''"
       "trace w1 = trace w @ [Created t, Removed t]" by blast
  from run_stage_success [OF s] obtain c where
    c: "temp_names w2 = temp_names w1" "trace w2 = trace w1 @ [Stage 1 filename t c False (files w1)]"
    by blast
  have sub: "set (upcoming_temps w2) \<subseteq> set (upcoming_temps w)"
    using n(1) c(1) by (auto simp: upcoming_temps_def)
  have t_up: "t \<in> set (upcoming_temps w)" using n(1,2) by (auto simp: upcoming_temps_def)
  from scratch_loop_acts [OF rec] obtain es' ts' where
    es': "trace w' = trace w2 @ es'" "ol' = [filename, t] @ ts'" "length ts' = length rest"
         "allocated es' = ts'" "map act_of es' = scratch_acts 2 (last [filename, t]) ts'"
         "set ts' \<subseteq> set (upcoming_temps w2)"
         "distinct (temp_names w2) \<longrightarrow> distinct ts'"
    by auto
  let ?es = "events_of_run w w'"
  let ?blk = "[Created t, Removed t, Stage 1 filename t c False (files w1)]"
  have ev: "?es = ?blk @ es'"
    using es'(1) n(3) c(2) by (simp add: events_of_run_append)
  have al: "allocated ?es = t # ts'"
    using ev es'(4) by (simp add: allocated_append)
  have acts: "map act_of ?es = scratch_acts 1 filename (t # ts')"
    using ev es'(5) by (simp add: numeral_2_eq_2)
  have one: "1 \<le> length (stages G cmds)" using st by simp
  have len: "length (t # ts') = length (stages G cmds)" using st es'(3) by simp
  have once: "deleted_at_once (map act_of ?es) = t # ts'"
    unfolding acts by (rule deleted_at_once_scratch)
  have after: "deleted_after_stage (map act_of ?es) = butlast (t # ts')"
    unfolding acts by (rule deleted_after_stage_scratch)
  have lst: "last (t # ts') = out" using out es'(2) by simp
  have dist: "distinct (t # ts')" if dw: "distinct (temp_names w)"
  proof -
    have d2: "distinct (temp_names w2)" using dw n(1) c(1) by auto
    have "n \<notin> set (temp_names w2)" using dw n(1) c(1) by auto
    then have "t \<notin> set (upcoming_temps w2)" using n(2) by (auto simp: upcoming_temps_def)
    with es'(6,7) d2 show ?thesis by auto
  qed
  have dels: "set (deletions (map act_of ?es)) = set (t # ts')"
    unfolding acts deletions_scratch_set by simp
  have count: "length (deletions (map act_of ?es)) = 2 * length (stages G cmds) - 1"
    unfolding acts using len by (simp add: deletions_scratch_length)
  have src: "Removed filename \<notin> set ?es" if nf: "filename \<notin> set (upcoming_temps w)"
  proof
    assume "Removed filename \<in> set ?es"
    then have "filename \<in> set (deletions (map act_of ?es))" by (rule removed_is_deletion)
    with dels have "filename \<in> set (t # ts')" by simp
    with es'(6) sub t_up have "filename \<in> set (upcoming_temps w)" by auto
    with nf show False by simp
  qed
  show ?thesis
    unfolding al using one len acts once after dels count lst dist src
    unfolding al by blast
qed

theorem scratch_mode_file_lifecycle_witness:
  "audio_pre_prcs demo_given (demo_world [''a.wav'']) ''a.wav'' False
       [''ffmpeg -i {in_} {out_}'', ''ffmpeg -y -i {in_} {out_}''] None ''avconv'' =
     (Inr ''/tmp/tmp2.flac'', snd demo_scratch_two) \<and>
   allocated (events_of_run (demo_world [''a.wav'']) (snd demo_scratch_two)) =
     [''/tmp/tmp1.flac'', ''/tmp/tmp2.flac''] \<and>
   map act_of (events_of_run (demo_world [''a.wav'']) (snd demo_scratch_two)) =
     [Allocate ''/tmp/tmp1.flac'', Delete ''/tmp/tmp1.flac'',
      Invoke 1 ''a.wav'' ''/tmp/tmp1.flac'',
      Allocate ''/tmp/tmp2.flac'', Delete ''/tmp/tmp2.flac'',
      Invoke 2 ''/tmp/tmp1.flac'' ''/tmp/tmp2.flac'', Delete ''/tmp/tmp1.flac''] \<and>
   deleted_at_once (map act_of (events_of_run (demo_world [''a.wav'']) (snd demo_scratch_two))) =
     [''/tmp/tmp1.flac'', ''/tmp/tmp2.flac''] \<and>
   deleted_after_stage (map act_of (events_of_run (demo_world [''a.wav'']) (snd demo_scratch_two))) =
     [''/tmp/tmp1.flac''] \<and>
   length (deletions (map act_of (events_of_run (demo_world [''a.wav'']) (snd demo_scratch_two)))) =
     3 \<and>
   distinct (temp_names (demo_world [''a.wav''])) \<and>
   distinct (allocated (events_of_run (demo_world [''a.wav'']) (snd demo_scratch_two))) \<and>
   ''a.wav'' \<notin> set (upcoming_temps (demo_world [''a.wav''])) \<and>
   Removed ''a.wav'' \<notin> set (events_of_run (demo_world [''a.wav'']) (snd demo_scratch_two)) \<and>
   audio_pre_prcs demo_given (demo_world [''a.wav'']) ''a.wav'' False
       [''ffmpeg -i {in_} {out_}''] None ''ffmpeg'' =
     (Inr ''/tmp/tmp1.flac'', snd demo_scratch_one) \<and>
   allocated (events_of_run (demo_world [''a.wav'']) (snd demo_scratch_one)) =
     [''/tmp/tmp1.flac''] \<and>
   deleted_after_stage (map act_of (events_of_run (demo_world [''a.wav'']) (snd demo_scratch_one))) =
     []"
proof -
  let ?w = "demo_world [''a.wav'']"
  have run2: "audio_pre_prcs demo_given ?w ''a.wav'' False
       [''ffmpeg -i {in_} {out_}'', ''ffmpeg -y -i {in_} {out_}''] None ''avconv'' =
     (Inr ''/tmp/tmp2.flac'', snd demo_scratch_two)"
    using demo_scratch_two_run by (simp add: demo_scratch_two_def prod_eq_iff)
  have run1: "audio_pre_prcs demo_given ?w ''a.wav'' False
       [''ffmpeg -i {in_} {out_}''] None ''ffmpeg'' =
     (Inr ''/tmp/tmp1.flac'', snd demo_scratch_one)"
    using demo_scratch_one_run by (simp add: demo_scratch_one_def prod_eq_iff)
  have d: "distinct (temp_names ?w)"
    by (simp add: demo_world_def)
  have s: "''a.wav'' \<notin> set (upcoming_temps ?w)"
    by (simp add: demo_world_def upcoming_temps_def)
  have al2: "allocated (events_of_run ?w (snd demo_scratch_two)) =
     [''/tmp/tmp1.flac'', ''/tmp/tmp2.flac'']"
    using demo_scratch_two_run by simp
  have al1: "allocated (events_of_run ?w (snd demo_scratch_one)) = [''/tmp/tmp1.flac'']"
    using demo_scratch_one_run by simp
  note t2 = scratch_mode_file_lifecycle [OF run2, unfolded al2]
  note t1 = scratch_mode_file_lifecycle [OF run1, unfolded al1]
  have acts2: "map act_of (events_of_run ?w (snd demo_scratch_two)) =
     [Allocate ''/tmp/tmp1.flac'', Delete ''/tmp/tmp1.flac'',
      Invoke 1 ''a.wav'' ''/tmp/tmp1.flac'',
      Allocate ''/tmp/tmp2.flac'', Delete ''/tmp/tmp2.flac'',
      Invoke 2 ''/tmp/tmp1.flac'' ''/tmp/tmp2.flac'', Delete ''/tmp/tmp1.flac'']"
    using t2 by (simp add: numeral_2_eq_2)
  have once2: "deleted_at_once (map act_of (events_of_run ?w (snd demo_scratch_two))) =
     [''/tmp/tmp1.flac'', ''/tmp/tmp2.flac'']"
    using t2 by blast
  have after2: "deleted_after_stage (map act_of (events_of_run ?w (snd demo_scratch_two))) =
     [''/tmp/tmp1.flac'']"
    using t2 by simp
  have count2: "length (deletions (map act_of (events_of_run ?w (snd demo_scratch_two)))) = 3"
    using t2 by (simp add: stages_def)
  have dist2: "distinct (allocated (events_of_run ?w (snd demo_scratch_two)))"
    unfolding al2 using t2 d by blast
  have src2: "Removed ''a.wav'' \<notin> set (events_of_run ?w (snd demo_scratch_two))"
    using t2 s by blast
  have after1: "deleted_after_stage (map act_of (events_of_run ?w (snd demo_scratch_one))) = []"
    using t1 by simp
  from run2 al2 acts2 once2 after2 count2 d dist2 s src2 run1 al1 after1 show ?thesis by blast
qed

subsection \<open>Keep mode: the output path of a stage\<close>

lemma prompt_loop_spec:
  "prompt_loop out answers w =
     (let cs = candidates out answers;
          taken = takeWhile (isfile (files w)) cs
      in (if length taken = length cs then Inl EOFError else Inr (cs ! length taken),
          drop (length taken) answers,
          w\<lparr>trace := trace w @ map Prompted taken\<rparr>))"
proof (induction answers arbitrary: out w)
  case Nil
  show ?case by (simp add: candidates_def)
next
  case (Cons a rest)
  show ?case
  proof (cases "isfile (files w) out")
    case False
    then show ?thesis by (simp add: candidates_def)
  next
    case True
    have "prompt_loop out (a # rest) w =
            prompt_loop (renamed a) rest (w\<lparr>trace := trace w @ [Prompted out]\<rparr>)"
      using True by (simp add: renamed_def)
    also have "\<dots> =
       (let cs = candidates (renamed a) rest;
            taken = takeWhile (isfile (files w)) cs
        in (if length taken = length cs then Inl EOFError else Inr (cs ! length taken),
            drop (length taken) rest,
            w\<lparr>trace := trace w @ Prompted out # map Prompted taken\<rparr>))"
      by (simp add: Cons.IH Let_def)
    finally show ?thesis using True by (simp add: candidates_def Let_def)
  qed
qed

lemma find_takeWhile:
  "find (\<lambda>p. \<not> P p) cs =
     (if length (takeWhile P cs) = length cs then None else Some (cs ! length (takeWhile P cs)))"
  by (induction cs) auto

lemma keep_run_prefix:
  assumes "\<forall>ev\<in>set xs. \<forall>j a b c sh fs. ev \<noteq> Stage j a b c sh fs"
  shows "keep_run G f im i k cur before (xs @ es) = keep_run G f im i k cur (before @ xs) es"
  using assms
proof (induction xs arbitrary: before)
  case Nil
  then show ?case by simp
next
  case (Cons x xs)
  then show ?case by (cases x) auto
qed

lemma before_stage_no_stage:
  "\<forall>ev\<in>set (before_stage im d cur). \<forall>j a b c sh fs. ev \<noteq> Stage j a b c sh fs"
  by (cases im) (auto simp: before_stage_def)

lemma no_removal_prompts: "list_all no_removal (map Prompted xs)"
  by (induction xs) (simp_all add: no_removal_def)

lemma no_removal_before_stage: "list_all no_removal (before_stage (Some as) d cur)"
  by (simp add: before_stage_def no_removal_prompts)

lemma keep_run_no_removal:
  assumes "keep_run G f (Some as) i k cur before es"
  shows "list_all no_removal (before @ es)"
  using assms
proof (induction es arbitrary: as i k cur before)
  case Nil
  then have "before = [] \<or> before = before_stage (Some as) (derived_path f i) cur"
    by (simp split: if_splits)
  then have "list_all no_removal before"
    by (rule disjE) (simp, erule ssubst, rule no_removal_before_stage)
  then show ?case by simp
next
  case (Cons x es)
  show ?case
  proof (cases x)
    case (Stage j a b c sh fs)
    with Cons.prems have
      b: "before = before_stage (Some as) (derived_path f i) cur"
      and r: "case fst (run_process G c sh fs) of
                Inl e \<Rightarrow> es = []
              | Inr u \<Rightarrow>
                  keep_run G f (answers_left (Some as) (derived_path f i) cur) (Suc i) (k - 1)
                    (snd (run_process G c sh fs)) [] es"
      by auto
    from b have "list_all no_removal before"
      by (rule ssubst) (rule no_removal_before_stage)
    moreover have "list_all no_removal es"
    proof (cases "fst (run_process G c sh fs)")
      case (Inl e)
      with r show ?thesis by simp
    next
      case (Inr u)
      with r have "keep_run G f
          (Some (drop (length (before_stage (Some as) (derived_path f i) cur)) as)) (Suc i)
          (k - 1) (snd (run_process G c sh fs)) [] es"
        by (simp add: answers_left_def)
      from Cons.IH [OF this] show ?thesis by simp
    qed
    moreover have "no_removal x" using Stage by (simp add: no_removal_def)
    ultimately show ?thesis by simp
  next
    case (Created t)
    with Cons.prems have "keep_run G f (Some as) i k cur (before @ [Created t]) es" by simp
    from Cons.IH [OF this] Created show ?thesis by simp
  next
    case (Removed t)
    with Cons.prems have "keep_run G f (Some as) i k cur (before @ [Removed t]) es" by simp
    from Cons.IH [OF this] Removed show ?thesis by simp
  next
    case (Prompted t)
    with Cons.prems have "keep_run G f (Some as) i k cur (before @ [Prompted t]) es" by simp
    from Cons.IH [OF this] Prompted show ?thesis by simp
  qed
qed

lemma isfile_fun: "isfile fs = (\<lambda>p. p \<in> set fs)"
  by (rule ext) (simp add: isfile_def)

lemma choose_output_keep:
  assumes "choose_output im d w = (r1, im1, w1)"
  shows "trace w1 = trace w @ before_stage im d (files w) \<and>
         files w1 = files_then im d (files w) \<and>
         im1 = answers_left im d (files w) \<and>
         (\<forall>out. r1 = Inr out \<longrightarrow>
            output_path im d (files w) = Some out \<and> out \<notin> set (files w1))"
proof (cases im)
  case None
  with assms show ?thesis
    by (auto simp: choose_output_def os_remove_def isfile_def before_stage_def files_then_def
        answers_left_def output_path_def split: if_splits)
next
  case (Some as)
  let ?cs = "candidates d as"
  let ?taken = "takeWhile (\<lambda>p. p \<in> set (files w)) ?cs"
  from assms Some have
    w1: "w1 = w\<lparr>trace := trace w @ map Prompted ?taken\<rparr>"
    and im1: "im1 = Some (drop (length ?taken) as)"
    and r1: "r1 = (if length ?taken = length ?cs then Inl EOFError else Inr (?cs ! length ?taken))"
    by (auto simp: choose_output_def prompt_loop_spec Let_def isfile_fun)
  have fs: "files w1 = files w" and tr: "trace w1 = trace w @ map Prompted ?taken"
    using w1 by simp_all
  have out: "out \<notin> set (files w) \<and> find (\<lambda>p. p \<notin> set (files w)) ?cs = Some out"
    if "r1 = Inr out" for out
  proof -
    from that r1 have ne: "length ?taken \<noteq> length ?cs" and o: "out = ?cs ! length ?taken"
      by (auto split: if_splits)
    then have f: "find (\<lambda>p. \<not> p \<in> set (files w)) ?cs = Some out"
      by (simp add: find_takeWhile)
    then have "out \<notin> set (files w)" by (auto simp: find_Some_iff)
    with f show ?thesis by simp
  qed
  show ?thesis
    using Some fs tr im1 out
    by (simp add: before_stage_def files_then_def answers_left_def output_path_def)
qed

lemma run_stage_ran:
  assumes "run_stage G ov i tpl a b w = (r, w1)"
  shows "(\<exists>e. r = Inl e \<and> w1 = w) \<or>
         (\<exists>c. trace w1 = trace w @ [Stage i a b c False (files w)] \<and>
              r = fst (run_process G c False (files w)) \<and>
              files w1 = snd (run_process G c False (files w)))"
  using assms
  by (auto simp: run_stage_def Let_def split: sum.splits prod.splits)

lemma keep_loop_run:
  assumes "keep_loop G tool stem i cmds im ol w = (r, w')"
    and "stem = fst (splitext filename)"
  shows "\<exists>es. trace w' = trace w @ es \<and>
           keep_run G filename im i (length cmds) (files w) [] es"
  using assms
proof (induction cmds arbitrary: i im ol w)
  case Nil
  then have "trace w' = trace w @ []" by simp
  moreover have "keep_run G filename im i (length ([] :: string list)) (files w) [] []"
    by simp
  ultimately show ?case by blast
next
  case (Cons tpl cmds)
  let ?d = "derived_path filename i"
  let ?pre = "before_stage im ?d (files w)"
  let ?k = "length (tpl # cmds)"
  obtain r1 im1 w1 where c: "choose_output im ?d w = (r1, im1, w1)"
    by (metis prod_cases3)
  have c': "choose_output im (stem @ ''_temp_'' @ str_nat i @ ''.flac'') w = (r1, im1, w1)"
    using c Cons.prems(2) by (simp add: derived_path_def)
  from choose_output_keep [OF c] have
    tr1: "trace w1 = trace w @ ?pre"
    and fs1: "files w1 = files_then im ?d (files w)"
    and im1: "im1 = answers_left im ?d (files w)"
    and chosen: "\<And>out. r1 = Inr out \<Longrightarrow>
                   output_path im ?d (files w) = Some out \<and> out \<notin> set (files w1)"
    by auto
  note nostage = before_stage_no_stage [of im ?d "files w"]
  have only_pre: "keep_run G filename im i ?k (files w) [] ?pre"
    using keep_run_prefix [OF nostage, of G filename im i ?k "files w" "[]" "[]"] by simp
  show ?case
  proof (cases r1)
    case (Inl e)
    with Cons.prems(1) c' have "w' = w1" by simp
    with tr1 only_pre show ?thesis by blast
  next
    case (Inr out)
    obtain r2 w2 where s: "run_stage G (Some tool) i tpl (last ol) out w1 = (r2, w2)"
      by (cases "run_stage G (Some tool) i tpl (last ol) out w1")
    from run_stage_ran [OF s] consider
      (fmt) e where "r2 = Inl e" "w2 = w1" |
      (ran) cmd where "trace w2 = trace w1 @ [Stage i (last ol) out cmd False (files w1)]"
        "r2 = fst (run_process G cmd False (files w1))"
        "files w2 = snd (run_process G cmd False (files w1))"
      by auto
    then show ?thesis
    proof cases
      case fmt
      with Cons.prems(1) c' Inr s have "w' = w1" by auto
      with tr1 only_pre show ?thesis by blast
    next
      case ran
      let ?st = "Stage i (last ol) out cmd False (files w1)"
      note pick = chosen [OF \<open>r1 = Inr out\<close>]
      show ?thesis
      proof (cases r2)
        case (Inl e)
        with Cons.prems(1) c' \<open>r1 = Inr out\<close> s have w': "w' = w2" by simp
        have sc: "fst (run_process G cmd False (files w1)) = Inl e"
          using ran(2) Inl by simp
        have "keep_run G filename im i ?k (files w) ?pre [?st]"
          using pick fs1 sc by simp
        with keep_run_prefix [OF nostage, of G filename im i ?k "files w" "[]" "[?st]"]
        have "keep_run G filename im i ?k (files w) [] (?pre @ [?st])"
          by (simp del: keep_run.simps)
        moreover have "trace w' = trace w @ (?pre @ [?st])"
          using w' tr1 ran(1) by simp
        ultimately show ?thesis by blast
      next
        case (Inr u)
        with Cons.prems(1) c' \<open>r1 = Inr out\<close> s
        have "keep_loop G tool stem (Suc i) cmds im1 (ol @ [out]) w2 = (r, w')" by simp
        from Cons.IH [OF this Cons.prems(2)] obtain es3 where
          es3: "trace w' = trace w2 @ es3"
               "keep_run G filename im1 (Suc i) (length cmds) (files w2) [] es3"
          by blast
        have sc: "fst (run_process G cmd False (files w1)) = Inr u"
          using ran(2) Inr by simp
        have "keep_run G filename im i ?k (files w) ?pre (?st # es3)"
          using pick fs1 im1 sc ran(3) es3(2) by simp
        with keep_run_prefix [OF nostage, of G filename im i ?k "files w" "[]" "?st # es3"]
        have "keep_run G filename im i ?k (files w) [] (?pre @ ?st # es3)"
          by (simp del: keep_run.simps)
        moreover have "trace w' = trace w @ (?pre @ ?st # es3)"
          using es3(1) tr1 ran(1) by simp
        ultimately show ?thesis by blast
      qed
    qed
  qed
qed

lemma demo_keep_prompt_run:
  "fst demo_keep_prompt = Inr ''/tmp/alt.temp.flac'' \<and>
   trace (snd demo_keep_prompt) =
     [Prompted ''a_temp_1.flac'',
      Stage 1 ''a.wav'' ''/tmp/alt.temp.flac'' ''ffmpeg -i a.wav /tmp/alt.temp.flac'' False
        [''a.wav'', ''a_temp_1.flac'']]"
  by code_simp

lemma demo_keep_delete_run:
  "fst demo_keep_delete = Inr ''a_temp_1.flac'' \<and>
   trace (snd demo_keep_delete) =
     [Removed ''a_temp_1.flac'',
      Stage 1 ''a.wav'' ''a_temp_1.flac'' ''ffmpeg -i a.wav a_temp_1.flac'' False [''a.wav'']]"
  by code_simp

text \<open>
  The characterisation refuses a run that removes the colliding file instead of prompting,
  and a run that stops at the collision without a prompt.
\<close>

lemma keep_run_refuses:
  "\<not> keep_run demo_given ''a.wav'' (Some [''/tmp/alt'']) 1 1 [''a.wav'', ''a_temp_1.flac''] []
       [Removed ''a_temp_1.flac'',
        Stage 1 ''a.wav'' ''a_temp_1.flac'' ''ffmpeg -i a.wav a_temp_1.flac'' False [''a.wav'']]"
  "\<not> keep_run demo_given ''a.wav'' (Some [''/tmp/alt'']) 1 1 [''a.wav'', ''a_temp_1.flac''] [] []"
  by code_simp+

text \<open>
  C5, as stated, fails in what is appended to the answer: with a file at
  \<open>a_temp_1.flac\<close> and the answer \<open>/tmp/alt\<close>, the output path is
  \<open>/tmp/alt.temp.flac\<close>, not the answer with the stage's extension, \<open>/tmp/alt.flac\<close>.
\<close>

theorem keep_mode_renames_with_temp_flac:
  "fst (audio_pre_prcs demo_given (demo_world [''a.wav'', ''a_temp_1.flac'']) ''a.wav'' True []
         (Some [''/tmp/alt'']) ''ffmpeg'') = Inr ''/tmp/alt.temp.flac''"
  by code_simp

text \<open>
  C5, amended. In keep mode the output path of stage \<open>i\<close> is derived as the source's
  stem followed by \<open>_temp_<i>.flac\<close>. With an interactive capability, as long as a file
  exists at the path chosen the runner prompts, takes the answer without its extension and
  appends the fixed suffix \<open>.temp.flac\<close>, until a path is obtained at which no file
  exists: before a stage is run there is exactly one prompt for each colliding path, in
  order, and the stage is run with the first path without a file as its output; a run that
  ends there (the answers having run out, or the template failing to format) has made those
  prompts too. It never overwrites an existing file without consulting the user: no file
  exists at the output path when the stage command runs, the files are then as they were
  when the choice began, and with the capability the run removes no file at all. Without
  the capability the runner removes the file at the derived path if and only if one exists,
  does nothing else before the stage, and runs the stage with the derived path as its
  output.
\<close>

theorem keep_mode_output_path:
  "keep_run G filename input_m 1 (length (stages G cmds)) (files w) []
     (events_of_run w (snd (audio_pre_prcs G w filename True cmds input_m tool))) \<and>
   (input_m \<noteq> None \<longrightarrow>
      list_all no_removal
        (events_of_run w (snd (audio_pre_prcs G w filename True cmds input_m tool))))"
proof -
  obtain r w' where run: "audio_pre_prcs G w filename True cmds input_m tool = (r, w')"
    by (cases "audio_pre_prcs G w filename True cmds input_m tool")
  then obtain r0 where
    "keep_loop G tool (fst (splitext filename)) 1 (stages G cmds) input_m [filename] w = (r0, w')"
    by (auto simp: audio_pre_prcs_def stages_def Let_def split: prod.splits sum.splits)
  from keep_loop_run [OF this] obtain es where
    es: "trace w' = trace w @ es"
        "keep_run G filename input_m 1 (length (stages G cmds)) (files w) [] es" by blast
  then have ev: "events_of_run w w' = es" by (simp add: events_of_run_append)
  have "list_all no_removal es" if "input_m \<noteq> None"
  proof -
    from that obtain as where "input_m = Some as" by auto
    with es(2) keep_run_no_removal [of G filename as 1 "length (stages G cmds)" "files w" "[]" es]
    show ?thesis by simp
  qed
  with es(2) ev run show ?thesis by simp
qed

theorem keep_mode_output_path_witness:
  "events_of_run (demo_world [''a.wav'', ''a_temp_1.flac'']) (snd demo_keep_prompt) =
     [Prompted ''a_temp_1.flac'',
      Stage 1 ''a.wav'' ''/tmp/alt.temp.flac'' ''ffmpeg -i a.wav /tmp/alt.temp.flac'' False
        [''a.wav'', ''a_temp_1.flac'']] \<and>
   keep_run demo_given ''a.wav'' (Some [''/tmp/alt'']) 1 (length (stages demo_given []))
     (files (demo_world [''a.wav'', ''a_temp_1.flac''])) []
     (events_of_run (demo_world [''a.wav'', ''a_temp_1.flac'']) (snd demo_keep_prompt)) \<and>
   Some [''/tmp/alt''] \<noteq> None \<and>
   list_all no_removal
     (events_of_run (demo_world [''a.wav'', ''a_temp_1.flac'']) (snd demo_keep_prompt)) \<and>
   events_of_run (demo_world [''a.wav'', ''a_temp_1.flac'']) (snd demo_keep_delete) =
     [Removed ''a_temp_1.flac'',
      Stage 1 ''a.wav'' ''a_temp_1.flac'' ''ffmpeg -i a.wav a_temp_1.flac'' False [''a.wav'']] \<and>
   keep_run demo_given ''a.wav'' None 1 (length (stages demo_given []))
     (files (demo_world [''a.wav'', ''a_temp_1.flac''])) []
     (events_of_run (demo_world [''a.wav'', ''a_temp_1.flac'']) (snd demo_keep_delete))"
proof -
  have a: "keep_run demo_given ''a.wav'' (Some [''/tmp/alt'']) 1 (length (stages demo_given []))
             (files (demo_world [''a.wav'', ''a_temp_1.flac''])) []
             (events_of_run (demo_world [''a.wav'', ''a_temp_1.flac'']) (snd demo_keep_prompt)) \<and>
           (Some [''/tmp/alt''] \<noteq> None \<longrightarrow>
              list_all no_removal
                (events_of_run (demo_world [''a.wav'', ''a_temp_1.flac''])
                   (snd demo_keep_prompt)))"
    unfolding demo_keep_prompt_def by (rule keep_mode_output_path)
  have b: "keep_run demo_given ''a.wav'' None 1 (length (stages demo_given []))
             (files (demo_world [''a.wav'', ''a_temp_1.flac''])) []
             (events_of_run (demo_world [''a.wav'', ''a_temp_1.flac'']) (snd demo_keep_delete))"
    unfolding demo_keep_delete_def using keep_mode_output_path by (rule conjunct1)
  show ?thesis
    using a b demo_keep_prompt_run demo_keep_delete_run by (simp del: keep_run.simps)
qed

end
